theory Spec2Isabelle
  imports Complex_Main
begin

chapter \<open>The GP notebooks: data preparation, training loops, evaluation harness\<close>

text \<open>
  The repository holds two notebooks, \<^verbatim>\<open>notebooks/gpytorch/gpytorch-LOVE.ipynb\<close> (exact GP
  regression on the skillcraft data) and \<^verbatim>\<open>notebooks/gpytorch/deep-kernel-learning.ipynb\<close>
  (deep kernel learning on CIFAR). Their own code is glue around torch and gpytorch; the
  embedding below follows the cells statement by statement and takes the library objects
  as opaque values with the methods the cells call.
\<close>

section \<open>Errors raised by the cells\<close>

datatype error =
    RuntimeError string
  | TorchError          \<comment> \<open>an exception raised inside a torch operation\<close>
  | NameError string
  | ZeroDivisionError

section \<open>LOVE notebook: loading and normalising the data (cell 4)\<close>

text \<open>
  \<^verbatim>\<open>
  data = torch.Tensor(loadmat(DATA)['data'])
  X = data[:, :-1]
  X = X - X.min(0)[0]
  X = 2 * (X / X.max(0)[0]) - 1
  y = data[:, -1]
  \<close>
  \<open>torch.Tensor\<close> is a tensor of 32-bit floats, so every number of the cell is a
  binary32 value and every operation rounds. The matrix read from the file holds
  doubles, taken to be finite numbers and so rationals; \<open>raw\<close> is that matrix, a list
  of rows of equal length.
\<close>

subsection \<open>binary32 values and rounding to nearest, ties to even\<close>

text \<open>
  A binary32 value is a finite number \<open>m * 2 ^ e\<close> with \<open>|m| < 2 ^ 24\<close> and
  \<open>-149 \<le> e \<le> 104\<close>, an infinity or \<open>NaN\<close>. \<open>Fin 0\<close> stands for both zeros: their
  sign could only show in the quotient of a non-zero number by zero, which this cell never
  forms (its divisor is zero only when every numerator is).
\<close>

datatype fl = Fin rat | PInf | NInf | NaN

fun is_finite :: "fl \<Rightarrow> bool" where
  "is_finite (Fin q) = True"
| "is_finite PInf = False"
| "is_finite NInf = False"
| "is_finite NaN = False"

fun fneg :: "fl \<Rightarrow> fl" where
  "fneg (Fin q) = Fin (- q)"
| "fneg PInf = NInf"
| "fneg NInf = PInf"
| "fneg NaN = NaN"

definition rhe :: "rat \<Rightarrow> int" where
  \<comment> \<open>the nearest integer, the even one of two that are equally near\<close>
  "rhe x =
     (let f = \<lfloor>x\<rfloor>; d = x - of_int f
      in if d < 1 / 2 then f
         else if 1 / 2 < d then f + 1
         else if even f then f else f + 1)"

function bits :: "int \<Rightarrow> nat" where
  \<comment> \<open>the number of binary digits of a positive integer\<close>
  "bits x = (if x \<le> 0 then 0 else Suc (bits (x div 2)))"
  by pat_completeness auto
termination
  by (relation "measure nat") auto

definition grid_index :: "rat \<Rightarrow> nat" where
  \<comment> \<open>for \<open>q \<ge> 0\<close>: the least \<open>i\<close> with \<open>q < 2 ^ 24 * 2 ^ (i - 149)\<close>; the binary32
      values around \<open>q\<close> are the multiples of \<open>2 ^ (i - 149)\<close> (subnormal for \<open>i = 0\<close>)\<close>
  "grid_index q = bits \<lfloor>q * 2 ^ 149\<rfloor> - 24"

definition grid_value :: "rat \<Rightarrow> rat" where
  \<comment> \<open>for \<open>q \<ge> 0\<close>: the multiple of \<open>2 ^ (i - 149)\<close> nearest to \<open>q\<close>, ties to even\<close>
  "grid_value q =
     of_int (rhe (q * 2 ^ 149 / 2 ^ grid_index q)) * 2 ^ grid_index q / 2 ^ 149"

definition round_pos :: "rat \<Rightarrow> fl" where
  \<comment> \<open>for \<open>q \<ge> 0\<close>; from \<open>2 ^ 128 - 2 ^ 103\<close>, half a step above the largest finite
      value, the result is infinite\<close>
  "round_pos q = (if (2 ^ 25 - 1) * 2 ^ 103 \<le> q then PInf else Fin (grid_value q))"

definition round32 :: "rat \<Rightarrow> fl" where
  \<comment> \<open>the binary32 value of an exact result; also the conversion of a double\<close>
  "round32 q = (if q < 0 then fneg (round_pos (- q)) else round_pos q)"

subsection \<open>binary32 arithmetic\<close>

fun fle :: "fl \<Rightarrow> fl \<Rightarrow> bool" where
  \<comment> \<open>\<open>\<le>\<close> on floats; false when an operand is \<open>NaN\<close>\<close>
  "fle NaN v = False"
| "fle v NaN = False"
| "fle NInf v = True"
| "fle v PInf = True"
| "fle (Fin a) (Fin b) = (a \<le> b)"
| "fle v w = False"

definition fmin :: "fl \<Rightarrow> fl \<Rightarrow> fl" where
  \<comment> \<open>one step of the reduction \<open>min\<close>, which hands \<open>NaN\<close> on\<close>
  "fmin a b = (if a = NaN \<or> b = NaN then NaN else if fle a b then a else b)"

definition fmax :: "fl \<Rightarrow> fl \<Rightarrow> fl" where
  \<comment> \<open>one step of the reduction \<open>max\<close>, which hands \<open>NaN\<close> on\<close>
  "fmax a b = (if a = NaN \<or> b = NaN then NaN else if fle a b then b else a)"

fun fsub :: "fl \<Rightarrow> fl \<Rightarrow> fl" where
  "fsub NaN v = NaN"
| "fsub v NaN = NaN"
| "fsub (Fin a) (Fin b) = round32 (a - b)"
| "fsub PInf PInf = NaN"
| "fsub NInf NInf = NaN"
| "fsub PInf v = PInf"
| "fsub NInf v = NInf"
| "fsub v PInf = NInf"
| "fsub v NInf = PInf"

fun fmul :: "fl \<Rightarrow> fl \<Rightarrow> fl" where
  "fmul NaN v = NaN"
| "fmul v NaN = NaN"
| "fmul (Fin a) (Fin b) = round32 (a * b)"
| "fmul (Fin a) v = (if a = 0 then NaN else if 0 < a then v else fneg v)"
| "fmul v (Fin b) = (if b = 0 then NaN else if 0 < b then v else fneg v)"
| "fmul v w = (if v = w then PInf else NInf)"

fun fdiv :: "fl \<Rightarrow> fl \<Rightarrow> fl" where
  "fdiv NaN v = NaN"
| "fdiv v NaN = NaN"
| "fdiv (Fin a) (Fin b) =
     (if b = 0 then (if a = 0 then NaN else if 0 < a then PInf else NInf)
      else round32 (a / b))"
| "fdiv (Fin a) v = Fin 0"
| "fdiv v (Fin b) = (if 0 \<le> b then v else fneg v)"
| "fdiv v w = NaN"

subsection \<open>The cell\<close>

definition rect :: "'a list list \<Rightarrow> bool" where
  \<comment> \<open>the rows of a matrix have one length\<close>
  "rect rows = list_all (\<lambda>r. length r = length (hd rows)) rows"

definition col :: "'a list list \<Rightarrow> nat \<Rightarrow> 'a list" where
  \<comment> \<open>\<^verbatim>\<open>X[:, j]\<close>\<close>
  "col rows j = map (\<lambda>r. r ! j) rows"

definition tensor :: "rat list list \<Rightarrow> fl list list" where
  \<comment> \<open>\<^verbatim>\<open>torch.Tensor(loadmat(DATA)['data'])\<close>: every double is converted to binary32\<close>
  "tensor raw = map (map round32) raw"

definition reduce :: "('a \<Rightarrow> 'a \<Rightarrow> 'a) \<Rightarrow> 'a list \<Rightarrow> 'a" where
  \<comment> \<open>a reduction over a column with at least one entry\<close>
  "reduce f xs = fold f (tl xs) (hd xs)"

definition col_mins :: "fl list list \<Rightarrow> fl list" where
  \<comment> \<open>\<^verbatim>\<open>X.min(0)[0]\<close> of a tensor with at least one row\<close>
  "col_mins X = map (\<lambda>j. reduce fmin (col X j)) [0..<length (hd X)]"

definition col_maxs :: "fl list list \<Rightarrow> fl list" where
  \<comment> \<open>\<^verbatim>\<open>X.max(0)[0]\<close> of a tensor with at least one row\<close>
  "col_maxs X = map (\<lambda>j. reduce fmax (col X j)) [0..<length (hd X)]"

definition features :: "'a list list \<Rightarrow> 'a list list" where
  \<comment> \<open>\<^verbatim>\<open>data[:, :-1]\<close>\<close>
  "features data = map butlast data"

definition shifted :: "fl list list \<Rightarrow> fl list list" where
  \<comment> \<open>\<^verbatim>\<open>X - X.min(0)[0]\<close>, the row of minima broadcast over the rows\<close>
  "shifted X = map (\<lambda>r. map2 fsub r (col_mins X)) X"

definition scaled :: "fl list list \<Rightarrow> fl list list" where
  \<comment> \<open>\<^verbatim>\<open>2 * (X / X.max(0)[0]) - 1\<close>, the row of maxima broadcast over the rows\<close>
  "scaled X =
     map (\<lambda>r. map2 (\<lambda>x m. fsub (fmul (Fin 2) (fdiv x m)) (Fin 1)) r (col_maxs X)) X"

definition divisors :: "rat list list \<Rightarrow> fl list" where
  \<comment> \<open>the row \<^verbatim>\<open>X.max(0)[0]\<close> the cell divides by, taken after the minima are subtracted\<close>
  "divisors raw = col_maxs (shifted (features (tensor raw)))"

definition normalize_features :: "rat list list \<Rightarrow> error + (fl list list \<times> fl list)" where
  \<comment> \<open>the cell: with no row or no feature column \<open>X\<close> has no elements, and the
      reduction \<open>X.min(0)\<close> over such a tensor raises in the torch the notebook is
      written for; otherwise the normalised features \<open>X\<close> and the target \<open>y\<close>\<close>
  "normalize_features raw =
     (if raw = [] \<or> length (hd raw) \<le> 1 then Inl TorchError
      else let data = tensor raw
           in Inr (scaled (shifted (features data)), map last data))"

definition constant_col :: "'a list \<Rightarrow> bool" where
  \<comment> \<open>a column whose entries are all the same value: its maximum equals its minimum\<close>
  "constant_col xs = list_all (\<lambda>x. x = hd xs) xs"

section \<open>LOVE notebook: the train/test split (cell 5)\<close>

text \<open>
  \<^verbatim>\<open>
  train_n = int(math.floor(0.4*len(X)))
  train_x = X[:train_n, :].contiguous()
  train_y = y[:train_n].contiguous()
  test_x = X[train_n:, :].contiguous()
  test_y = y[train_n:].contiguous()
  \<close>
  The product \<open>0.4 * len(X)\<close> is taken exactly.
\<close>

definition train_n :: "'a list \<Rightarrow> nat" where
  "train_n X = nat \<lfloor>(4 / 10 :: rat) * of_nat (length X)\<rfloor>"

record ('a, 'b) partitions =
  train_x :: "'a list"
  train_y :: "'b list"
  test_x :: "'a list"
  test_y :: "'b list"

definition split :: "'a list \<Rightarrow> 'b list \<Rightarrow> ('a, 'b) partitions" where
  "split X y =
     \<lparr> train_x = take (train_n X) X,
       train_y = take (train_n X) y,
       test_x = drop (train_n X) X,
       test_y = drop (train_n X) y \<rparr>"

section \<open>The library objects and the kernel state\<close>

text \<open>
  The model, the likelihood, the optimizer and the scheduler are objects of torch and
  gpytorch. Their joint state (parameters, accumulated gradients, optimizer buffers,
  train/eval mode, caches) is one opaque value of type \<open>'t\<close>, and the methods the cells
  call on them are the fields of \<open>lib\<close>. A batch \<open>'b\<close> is a pair of inputs and targets
  (\<open>(train_x, train_y)\<close> in the LOVE notebook, \<open>(data, target)\<close> in the DKL notebook):
  \<open>model_call\<close> reads its inputs and \<open>mll_call\<close> its targets.
\<close>

record ('t, 'b, 'o, 'sd) lib =
  model_call :: "'t \<Rightarrow> 'b \<Rightarrow> 'o"                \<comment> \<open>\<^verbatim>\<open>model(data)\<close>\<close>
  mll_call :: "'t \<Rightarrow> 'o \<Rightarrow> 'b \<Rightarrow> rat"           \<comment> \<open>\<^verbatim>\<open>mll(output, target)\<close>\<close>
  zero_grad :: "'t \<Rightarrow> 't"                       \<comment> \<open>\<^verbatim>\<open>optimizer.zero_grad()\<close>\<close>
  backward :: "'t \<Rightarrow> 'b \<Rightarrow> 't"                  \<comment> \<open>\<^verbatim>\<open>loss.backward()\<close>\<close>
  optimizer_step :: "'t \<Rightarrow> 't"                  \<comment> \<open>\<^verbatim>\<open>optimizer.step()\<close>\<close>
  scheduler_step :: "'t \<Rightarrow> 't"                  \<comment> \<open>\<^verbatim>\<open>scheduler.step()\<close>\<close>
  model_train :: "'t \<Rightarrow> 't"                     \<comment> \<open>\<^verbatim>\<open>model.train()\<close>\<close>
  likelihood_train :: "'t \<Rightarrow> 't"                \<comment> \<open>\<^verbatim>\<open>likelihood.train()\<close>\<close>
  model_eval :: "'t \<Rightarrow> 't"                      \<comment> \<open>\<^verbatim>\<open>model.eval()\<close>\<close>
  likelihood_eval :: "'t \<Rightarrow> 't"                 \<comment> \<open>\<^verbatim>\<open>likelihood.eval()\<close>\<close>
  hits :: "'t \<Rightarrow> 'b \<Rightarrow> nat"
    \<comment> \<open>\<^verbatim>\<open>pred.eq(target.view_as(pred)).cpu().sum()\<close> for
        \<^verbatim>\<open>pred = likelihood(model(data)).argmax()\<close>\<close>
  model_state_dict :: "'t \<Rightarrow> 'sd"               \<comment> \<open>\<^verbatim>\<open>model.state_dict()\<close>\<close>
  likelihood_state_dict :: "'t \<Rightarrow> 'sd"          \<comment> \<open>\<^verbatim>\<open>likelihood.state_dict()\<close>\<close>

datatype call =
    ZeroGrad | ModelCall | MllCall | Backward | OptimizerStep | SchedulerStep
  | ModelTrain | LikelihoodTrain | ModelEval | LikelihoodEval | LikelihoodCall
  | StateDict | TorchSave

datatype line =
    LoveLoss int int rat
      \<comment> \<open>\<^verbatim>\<open>f"{i+1:3d}/{n:3d} | Loss: {loss.item(): .3f}"\<close>\<close>
  | DklLoss int int int rat
      \<comment> \<open>\<^verbatim>\<open>f'Epoch: {epoch} | {batch_idx+1:3d}/{len(train_loader):3d}, Loss: {loss.item(): .6f}'\<close>\<close>

text \<open>
  The state of a running notebook: the library objects, the lines printed so far, the
  library calls made so far (in order), every value assigned so far to the variable
  \<open>loss\<close> of a training function (in order), and the files written by \<open>torch.save\<close>.
\<close>

record ('t, 'f) kernel =
  learner :: 't
  stdout :: "line list"
  calls :: "call list"
  losses :: "rat list"
  files :: "string \<rightharpoonup> 'f"

section \<open>LOVE notebook: the training loop (cell 8)\<close>

text \<open>
  \<^verbatim>\<open>
  def train(n):  # convenient for time tests
      pbar = tnrange(n)
      for i in pbar:
          optimizer.zero_grad()
          output = model(train_x)
          loss = -1 * mll(output, train_y)
          loss.backward()
          print(f"{i+1:3d}/{n:3d} | Loss: {loss.item(): .3f}")
          optimizer.step()
  \<close>
  \<open>d\<close> is the pair of the globals \<open>train_x\<close> and \<open>train_y\<close>. \<open>tnrange(n)\<close> runs over
  \<open>range(n)\<close>, which is empty for \<open>n \<le> 0\<close>.
\<close>

definition love_iteration ::
  "('t, 'b, 'o, 'sd) lib \<Rightarrow> 'b \<Rightarrow> int \<Rightarrow> int \<Rightarrow> ('t, 'f) kernel \<Rightarrow> ('t, 'f) kernel" where
  "love_iteration L d n i s =
     (let t1 = zero_grad L (learner s);
          output = model_call L t1 d;
          loss = - 1 * mll_call L t1 output d;
          t2 = backward L t1 d;
          printed = stdout s @ [LoveLoss (i + 1) n loss];
          t3 = optimizer_step L t2
      in s\<lparr> learner := t3, stdout := printed,
            calls := calls s @ [ZeroGrad, ModelCall, MllCall, Backward, OptimizerStep],
            losses := losses s @ [loss] \<rparr>)"

definition love_train ::
  "('t, 'b, 'o, 'sd) lib \<Rightarrow> 'b \<Rightarrow> int \<Rightarrow> ('t, 'f) kernel \<Rightarrow> ('t, 'f) kernel" where
  "love_train L d n s = fold (love_iteration L d n) (map int [0..<nat n]) s"

section \<open>DKL notebook: dataset selection (cells 3 and 4)\<close>

text \<open>
  \<^verbatim>\<open>
  if dataset == 'cifar10':
      d_func = datasets.CIFAR10
      train_set = datasets.CIFAR10('data', train=True, transform=train_compose, download=True)
      test_set = datasets.CIFAR10('data', train=False, transform=test_compose)
      train_loader = torch.utils.data.DataLoader(train_set, batch_size=64, shuffle=True, num_workers=3, pin_memory=True)
      test_loader = torch.utils.data.DataLoader(test_set, batch_size=64, shuffle=True, num_workers=3, pin_memory=True)
      num_classes = 10
  elif dataset == 'cifar100':
      ... the same with datasets.CIFAR100 ...
      num_classes = 100
  else:
      raise RuntimeError('dataset must be either "cifar10" or "cifar100"')
  \<close>
  The torchvision constructors are recorded with their arguments; a failure inside them
  (a download that fails) is the library's and is not modelled.
\<close>

datatype dataset_class = CIFAR10 | CIFAR100

datatype transform = TrainCompose | TestCompose

record dataset_obj =
  dataset_cls :: dataset_class
  root :: string
  train_flag :: bool
  transform_arg :: transform
  download :: bool

record data_loader =
  loaded_set :: dataset_obj
  batch_size :: nat
  shuffle :: bool
  num_workers :: nat
  pin_memory :: bool

record selection =
  d_func :: dataset_class
  train_set :: dataset_obj
  test_set :: dataset_obj
  train_loader :: data_loader
  test_loader :: data_loader
  num_classes :: nat

definition make_dataset :: "dataset_class \<Rightarrow> string \<Rightarrow> bool \<Rightarrow> transform \<Rightarrow> bool \<Rightarrow> dataset_obj" where
  "make_dataset c r t tr dl =
     \<lparr> dataset_cls = c, root = r, train_flag = t, transform_arg = tr, download = dl \<rparr>"

definition make_loader :: "dataset_obj \<Rightarrow> data_loader" where
  \<comment> \<open>\<^verbatim>\<open>DataLoader(set, batch_size=64, shuffle=True, num_workers=3, pin_memory=True)\<close>\<close>
  "make_loader ds =
     \<lparr> loaded_set = ds, batch_size = 64, shuffle = True, num_workers = 3, pin_memory = True \<rparr>"

definition select_with :: "dataset_class \<Rightarrow> nat \<Rightarrow> selection" where
  \<comment> \<open>the body shared by the two accepted branches\<close>
  "select_with c k =
     (let trs = make_dataset c ''data'' True TrainCompose True;
          tes = make_dataset c ''data'' False TestCompose False
      in \<lparr> d_func = c, train_set = trs, test_set = tes,
           train_loader = make_loader trs, test_loader = make_loader tes,
           num_classes = k \<rparr>)"

definition dataset_error :: string where
  \<open>dataset_error = ''dataset must be either "cifar10" or "cifar100"''\<close>

definition select_dataset :: "string \<Rightarrow> error + selection" where
  "select_dataset dataset =
     (if dataset = ''cifar10'' then Inr (select_with CIFAR10 10)
      else if dataset = ''cifar100'' then Inr (select_with CIFAR100 100)
      else Inl (RuntimeError dataset_error))"

section \<open>DKL notebook: training for one epoch (cell 11)\<close>

text \<open>
  \<^verbatim>\<open>
  def train(epoch, lr=0.1):
      model.train()
      likelihood.train()
      mll = gpytorch.mlls.VariationalMarginalLogLikelihood(likelihood, model, num_data=len(train_loader.dataset))
      train_loss = 0.
      pbar = tqdm(train_loader)
      for batch_idx, (data, target) in enumerate(pbar):
          optimizer.zero_grad()
          output = model(data)
          loss = -1 * mll(output, target)
          loss.backward()
          if (batch_idx+1) % 50 == 0:
              print(f'Epoch: {epoch} | {batch_idx+1:3d}/{len(train_loader):3d}, Loss: {loss.item(): .6f}')
          optimizer.step()
  \<close>
  At run time a loader is the list of batches one pass over it yields and the size of
  its dataset; the order in which a shuffling loader yields them is not modelled.
  \<open>len(train_loader)\<close> is the number of batches. The loss object \<open>mll\<close> built at the
  start is the \<open>mll_call\<close> of the library, and \<open>train_loss\<close> is never read.
\<close>

record 'b loader =
  batches :: "'b list"
  dataset_size :: nat

definition dkl_iteration ::
  "('t, 'b, 'o, 'sd) lib \<Rightarrow> int \<Rightarrow> int \<Rightarrow> nat \<times> 'b \<Rightarrow> ('t, 'f) kernel \<Rightarrow> ('t, 'f) kernel" where
  "dkl_iteration L epoch n_batches ib s =
     (let batch_idx = int (fst ib); b = snd ib;
          t1 = zero_grad L (learner s);
          output = model_call L t1 b;
          loss = - 1 * mll_call L t1 output b;
          t2 = backward L t1 b;
          printed = (if (batch_idx + 1) mod 50 = 0
                     then stdout s @ [DklLoss epoch (batch_idx + 1) n_batches loss]
                     else stdout s);
          t3 = optimizer_step L t2
      in s\<lparr> learner := t3, stdout := printed,
            calls := calls s @ [ZeroGrad, ModelCall, MllCall, Backward, OptimizerStep],
            losses := losses s @ [loss] \<rparr>)"

definition dkl_train ::
  "('t, 'b, 'o, 'sd) lib \<Rightarrow> 'b loader \<Rightarrow> int \<Rightarrow> ('t, 'f) kernel \<Rightarrow> ('t, 'f) kernel" where
  "dkl_train L trl epoch s =
     (let s1 = s\<lparr> learner := likelihood_train L (model_train L (learner s)),
                   calls := calls s @ [ModelTrain, LikelihoodTrain] \<rparr>
      in fold (dkl_iteration L epoch (int (length (batches trl))))
              (enumerate 0 (batches trl)) s1)"

section \<open>One pass of either loop body, seen from the learner\<close>

text \<open>
  Both loop bodies make the same library calls in the same order. \<open>iteration_update\<close>
  is what they do to the library state (gradients cleared, then the backward pass, then
  one optimizer step), \<open>iteration_loss\<close> the loss they compute from the state they
  start in, and \<open>iteration_calls\<close> the calls they make.
\<close>

definition iteration_update :: "('t, 'b, 'o, 'sd) lib \<Rightarrow> 'b \<Rightarrow> 't \<Rightarrow> 't" where
  "iteration_update L b t = optimizer_step L (backward L (zero_grad L t) b)"

definition iteration_loss :: "('t, 'b, 'o, 'sd) lib \<Rightarrow> 'b \<Rightarrow> 't \<Rightarrow> rat" where
  "iteration_loss L b t =
     - 1 * mll_call L (zero_grad L t) (model_call L (zero_grad L t) b) b"

definition iteration_calls :: "call list" where
  "iteration_calls = [ZeroGrad, ModelCall, MllCall, Backward, OptimizerStep]"

section \<open>DKL notebook: testing (cell 12)\<close>

text \<open>
  \<^verbatim>\<open>
  def test():
      model.eval()
      likelihood.eval()
      test_loss = 0
      correct = 0
      pbar = tqdm(test_loader)
      for data, target in pbar:
          with torch.no_grad():
              output = likelihood(model(data))
              pred = output.argmax()
              correct += pred.eq(target.view_as(pred)).cpu().sum()
      test_loss /= len(test_loader.dataset)
      print(f'Test Set | Average Loss: {test_loss:.4f}, Accuracy: {100. * correct / len(tes_loader.dataset):.3f}%')
  \<close>
  The function ends in an exception on every path. The division raises for a dataset of
  size zero. Otherwise the f-string is evaluated before \<open>print\<close> is called, and in it the
  name \<open>tes_loader\<close>, which no cell of the notebook binds (the loader is
  \<open>test_loader\<close>) and which is no builtin: the lookup raises \<open>NameError\<close>. The result
  is the kernel state, the locals \<open>test_loss\<close> and \<open>correct\<close> as they are when the
  function is left, and the exception.
\<close>

record test_frame =
  test_loss :: rat
  correct :: nat

definition test_batch ::
  "('t, 'b, 'o, 'sd) lib \<Rightarrow> 'b \<Rightarrow> ('t, 'f) kernel \<times> test_frame
     \<Rightarrow> ('t, 'f) kernel \<times> test_frame" where
  \<comment> \<open>the body of the \<open>for\<close> loop: the two calls, and \<open>correct +=\<close>\<close>
  "test_batch L b sf =
     (let s = fst sf; frame = snd sf
      in (s\<lparr> calls := calls s @ [ModelCall, LikelihoodCall] \<rparr>,
          frame\<lparr> correct := correct frame + hits L (learner s) b \<rparr>))"

definition dkl_test ::
  "('t, 'b, 'o, 'sd) lib \<Rightarrow> 'b loader \<Rightarrow> ('t, 'f) kernel
     \<Rightarrow> ('t, 'f) kernel \<times> test_frame \<times> error option" where
  "dkl_test L tel s =
     (let s1 = s\<lparr> learner := likelihood_eval L (model_eval L (learner s)),
                   calls := calls s @ [ModelEval, LikelihoodEval] \<rparr>;
          frame0 = \<lparr> test_loss = 0, correct = 0 \<rparr>;
          (s2, frame1) = fold (test_batch L) (batches tel) (s1, frame0)
      in if dataset_size tel = 0
         then (s2, frame1, Some ZeroDivisionError)
         else (s2, frame1\<lparr> test_loss := test_loss frame1 / of_nat (dataset_size tel) \<rparr>,
               Some (NameError ''tes_loader'')))"

section \<open>DKL notebook: the epoch loop with the checkpoint (cell 13)\<close>

text \<open>
  \<^verbatim>\<open>
  for epoch in range(1, n_epochs + 1):
      scheduler.step()
      with gpytorch.settings.use_toeplitz(False), gpytorch.settings.max_preconditioner_size(0):
          train(epoch)
          test()
      stat_dict = model.state_dict()
      likelihood_state_dict = likelihood.state_dict()
      torch.save(
          {'model': state_dict, 'likelihood': likelihood_state_dict},
          'dkl_cifar_checkpoint.dat',
      )
  \<close>
  The two settings only select how the library computes. The statements after the
  \<open>with\<close> block are \<open>checkpoint\<close>: the state dict of the model is bound to
  \<open>stat_dict\<close>, and the dictionary for \<open>torch.save\<close> reads \<open>state_dict\<close>, a name bound
  by no cell and no builtin, so building the argument raises \<open>NameError\<close> and
  \<open>torch.save\<close> is not called. An exception leaves the loop.
\<close>

definition checkpoint ::
  "('t, 'b, 'o, 'sd) lib \<Rightarrow> ('t, 'f) kernel \<Rightarrow> ('t, 'f) kernel \<times> error option" where
  "checkpoint L s =
     (let stat_dict = model_state_dict L (learner s);
          likelihood_state_dict = likelihood_state_dict L (learner s)
      in (s\<lparr> calls := calls s @ [StateDict, StateDict] \<rparr>, Some (NameError ''state_dict'')))"

definition epoch_body ::
  "('t, 'b, 'o, 'sd) lib \<Rightarrow> 'b loader \<Rightarrow> 'b loader \<Rightarrow> int \<Rightarrow> ('t, 'f) kernel
     \<Rightarrow> ('t, 'f) kernel \<times> error option" where
  "epoch_body L trl tel epoch s =
     (let s1 = s\<lparr> learner := scheduler_step L (learner s),
                   calls := calls s @ [SchedulerStep] \<rparr>;
          s2 = dkl_train L trl epoch s1;
          (s3, frame, raised) = dkl_test L tel s2
      in case raised of
           Some e \<Rightarrow> (s3, Some e)
         | None \<Rightarrow> checkpoint L s3)"

fun epoch_loop ::
  "('t, 'b, 'o, 'sd) lib \<Rightarrow> 'b loader \<Rightarrow> 'b loader \<Rightarrow> int list \<Rightarrow> ('t, 'f) kernel
     \<Rightarrow> ('t, 'f) kernel \<times> error option" where
  "epoch_loop L trl tel [] s = (s, None)"
| "epoch_loop L trl tel (epoch # rest) s =
     (case epoch_body L trl tel epoch s of
        (s', Some e) \<Rightarrow> (s', Some e)
      | (s', None) \<Rightarrow> epoch_loop L trl tel rest s')"

definition run_epochs ::
  "('t, 'b, 'o, 'sd) lib \<Rightarrow> 'b loader \<Rightarrow> 'b loader \<Rightarrow> int \<Rightarrow> ('t, 'f) kernel
     \<Rightarrow> ('t, 'f) kernel \<times> error option" where
  \<comment> \<open>\<^verbatim>\<open>range(1, n_epochs + 1)\<close>\<close>
  "run_epochs L trl tel n_epochs s =
     epoch_loop L trl tel (map int [1..<nat (n_epochs + 1)]) s"

text \<open>A stub library and an empty kernel, for running the loops on concrete inputs.\<close>

definition stub :: "(nat, rat, rat, nat) lib" where
  "stub =
     \<lparr> model_call = (\<lambda>t b. b),
       mll_call = (\<lambda>t out b. - out),
       zero_grad = (\<lambda>t. t),
       backward = (\<lambda>t b. t),
       optimizer_step = Suc,
       scheduler_step = (\<lambda>t. t),
       model_train = (\<lambda>t. t),
       likelihood_train = (\<lambda>t. t),
       model_eval = (\<lambda>t. t),
       likelihood_eval = (\<lambda>t. t),
       hits = (\<lambda>t b. 1),
       model_state_dict = (\<lambda>t. t),
       likelihood_state_dict = (\<lambda>t. t) \<rparr>"

definition fresh :: "(nat, nat) kernel" where
  "fresh = \<lparr> learner = 0, stdout = [], calls = [], losses = [], files = Map.empty \<rparr>"

section \<open>Properties of the split\<close>

lemma train_n_eq: "train_n X = (2 * length X) div 5"
proof -
  have "(4 / 10 :: rat) * of_nat (length X) = of_nat (2 * length X) / of_nat 5"
    by simp
  then have "\<lfloor>(4 / 10 :: rat) * of_nat (length X)\<rfloor> = int ((2 * length X) div 5)"
    by (simp only: floor_divide_of_nat_eq)
  then show ?thesis
    by (simp add: train_n_def)
qed

lemma train_n_le: "train_n X \<le> length X"
  by (simp add: train_n_eq)

text \<open>
  C3. For a dataset of \<open>N\<close> rows the split puts the first \<open>floor (0.4 * N)\<close> rows, in
  order, into the training partition and the remaining rows, in order, into the test
  partition: the two take their rows from disjoint ranges of row positions that together
  are all \<open>N\<close> positions, and their sizes add up to \<open>N\<close>. The targets are cut at the
  same position: \<open>train_y\<close> is the first \<open>floor (0.4 * N)\<close> entries of \<open>y\<close> and
  \<open>test_y\<close> the rest, so with one target per row each partition pairs every row with its
  own target.
\<close>

theorem split_partitions:
  fixes X :: "'a list" and y :: "'b list"
  defines "k \<equiv> nat \<lfloor>(4 / 10 :: rat) * of_nat (length X)\<rfloor>"
  shows "train_x (split X y) = map (\<lambda>i. X ! i) [0..<k]
       \<and> test_x (split X y) = map (\<lambda>i. X ! i) [k..<length X]
       \<and> length (train_x (split X y)) = k
       \<and> length (train_x (split X y)) + length (test_x (split X y)) = length X
       \<and> train_x (split X y) @ test_x (split X y) = X
       \<and> set [0..<k] \<inter> set [k..<length X] = {}
       \<and> set [0..<k] \<union> set [k..<length X] = {0..<length X}
       \<and> train_y (split X y) = take k y
       \<and> test_y (split X y) = drop k y
       \<and> train_y (split X y) @ test_y (split X y) = y
       \<and> (length y = length X \<longrightarrow>
             train_y (split X y) = map (\<lambda>i. y ! i) [0..<k]
           \<and> test_y (split X y) = map (\<lambda>i. y ! i) [k..<length X]
           \<and> length (train_y (split X y)) = length (train_x (split X y))
           \<and> length (test_y (split X y)) = length (test_x (split X y)))"
proof -
  have k: "k = train_n X"
    by (simp add: k_def train_n_def)
  have le: "k \<le> length X"
    by (simp add: k train_n_le)
  have a: "take k X = map (\<lambda>i. X ! i) [0..<k]"
    using le by (intro nth_equalityI) simp_all
  have b: "drop k X = map (\<lambda>i. X ! i) [k..<length X]"
    using le by (intro nth_equalityI) simp_all
  have c: "set [0..<k] \<union> set [k..<length X] = {0..<length X}"
    using le by auto
  have d: "train_x (split X y) = take k X" "test_x (split X y) = drop k X"
    by (simp_all add: split_def k)
  have e: "train_x (split X y) @ test_x (split X y) = X"
    by (simp add: d)
  have f: "length (train_x (split X y)) = k"
    using le by (simp add: d)
  have g: "length (train_x (split X y)) + length (test_x (split X y)) = length X"
    using le by (simp add: d)
  have h: "set [0..<k] \<inter> set [k..<length X] = {}"
    by auto
  have ty: "train_y (split X y) = take k y" "test_y (split X y) = drop k y"
    by (simp_all add: split_def k)
  have ya: "train_y (split X y) @ test_y (split X y) = y"
    by (simp add: ty)
  have yb: "train_y (split X y) = map (\<lambda>i. y ! i) [0..<k]
           \<and> test_y (split X y) = map (\<lambda>i. y ! i) [k..<length X]
           \<and> length (train_y (split X y)) = length (train_x (split X y))
           \<and> length (test_y (split X y)) = length (test_x (split X y))"
    if len: "length y = length X"
  proof (intro conjI)
    show "train_y (split X y) = map (\<lambda>i. y ! i) [0..<k]"
      unfolding ty using le len by (intro nth_equalityI) simp_all
    show "test_y (split X y) = map (\<lambda>i. y ! i) [k..<length X]"
      unfolding ty using le len by (intro nth_equalityI) simp_all
    show "length (train_y (split X y)) = length (train_x (split X y))"
      using le len by (simp add: ty d)
    show "length (test_y (split X y)) = length (test_x (split X y))"
      using le len by (simp add: ty d)
  qed
  have x: "train_x (split X y) = map (\<lambda>i. X ! i) [0..<k]
       \<and> test_x (split X y) = map (\<lambda>i. X ! i) [k..<length X]
       \<and> length (train_x (split X y)) = k
       \<and> length (train_x (split X y)) + length (test_x (split X y)) = length X
       \<and> train_x (split X y) @ test_x (split X y) = X
       \<and> set [0..<k] \<inter> set [k..<length X] = {}
       \<and> set [0..<k] \<union> set [k..<length X] = {0..<length X}"
    using a b c e f g h by (simp only: d)
  have yc: "length y = length X \<longrightarrow>
             train_y (split X y) = map (\<lambda>i. y ! i) [0..<k]
           \<and> test_y (split X y) = map (\<lambda>i. y ! i) [k..<length X]
           \<and> length (train_y (split X y)) = length (train_x (split X y))
           \<and> length (test_y (split X y)) = length (test_x (split X y))"
    using yb by (rule impI)
  from x ty ya yc show ?thesis
    by blast
qed

theorem split_partitions_witness:
  "train_x (split [10, 20, 30, 40, 50 :: int] [1, 2, 3, 4, 5 :: int]) = [10, 20]
 \<and> test_x (split [10, 20, 30, 40, 50 :: int] [1, 2, 3, 4, 5 :: int]) = [30, 40, 50]
 \<and> train_y (split [10, 20, 30, 40, 50 :: int] [1, 2, 3, 4, 5 :: int]) = [1, 2]
 \<and> test_y (split [10, 20, 30, 40, 50 :: int] [1, 2, 3, 4, 5 :: int]) = [3, 4, 5]"
proof -
  have k: "nat \<lfloor>(4 / 10 :: rat) * of_nat (length [10, 20, 30, 40, 50 :: int])\<rfloor> = 2"
    by code_simp
  have u: "[0..<2] = [0, Suc 0]" "[2..<5] = [2, 3, 4]"
    by code_simp+
  have l: "length [1, 2, 3, 4, 5 :: int] = length [10, 20, 30, 40, 50 :: int]"
    by simp
  note p = split_partitions [of "[10, 20, 30, 40, 50 :: int]" "[1, 2, 3, 4, 5 :: int]",
      unfolded k]
  have "train_x (split [10, 20, 30, 40, 50 :: int] [1, 2, 3, 4, 5 :: int]) = [10, 20]"
    using p [THEN conjunct1] by (simp add: u)
  moreover have "test_x (split [10, 20, 30, 40, 50 :: int] [1, 2, 3, 4, 5 :: int])
      = [30, 40, 50]"
    using p [THEN conjunct2, THEN conjunct1] by (simp add: u)
  moreover have "train_y (split [10, 20, 30, 40, 50 :: int] [1, 2, 3, 4, 5 :: int]) = [1, 2]"
    using p [THEN conjunct2, THEN conjunct2, THEN conjunct2, THEN conjunct2, THEN conjunct2,
        THEN conjunct2, THEN conjunct2, THEN conjunct1]
    by (simp add: numeral_2_eq_2)
  moreover have "test_y (split [10, 20, 30, 40, 50 :: int] [1, 2, 3, 4, 5 :: int]) = [3, 4, 5]"
    using p [THEN conjunct2, THEN conjunct2, THEN conjunct2, THEN conjunct2, THEN conjunct2,
        THEN conjunct2, THEN conjunct2, THEN conjunct2, THEN conjunct1]
    by (simp add: numeral_2_eq_2)
  ultimately show ?thesis by (intro conjI)
qed

section \<open>Properties of the feature normalisation\<close>

subsection \<open>Rounding is monotone\<close>

lemma bits_pos: "0 < x \<Longrightarrow> bits x = Suc (bits (x div 2))"
  by simp

lemma bits_nonpos: "x \<le> 0 \<Longrightarrow> bits x = 0"
  by simp

declare bits.simps [simp del]

lemma bits_upper: "x < 2 ^ bits x"
proof (induction x rule: bits.induct)
  case (1 x)
  show ?case
  proof (cases "x \<le> 0")
    case True
    then show ?thesis by (simp add: bits_nonpos)
  next
    case False
    with 1 have "x div 2 < 2 ^ bits (x div 2)" by simp
    then have "x < 2 * 2 ^ bits (x div 2)" by linarith
    with False show ?thesis by (simp add: bits_pos)
  qed
qed

lemma bits_lower: "0 < x \<Longrightarrow> 2 ^ (bits x - 1) \<le> x"
proof (induction x rule: bits.induct)
  case (1 x)
  show ?case
  proof (cases "x div 2 \<le> 0")
    case True
    with 1(2) have "bits x = Suc 0" by (simp add: bits_pos bits_nonpos)
    with 1(2) show ?thesis by simp
  next
    case False
    with 1 have ih: "2 ^ (bits (x div 2) - 1) \<le> x div 2" by simp
    from False have "0 < bits (x div 2)" by (simp add: bits_pos)
    then have "bits x - 1 = Suc (bits (x div 2) - 1)"
      using 1(2) by (simp add: bits_pos)
    moreover have "2 * (x div 2) \<le> x" by simp
    ultimately show ?thesis using ih by simp
  qed
qed

lemma bits_le_iff: "bits x \<le> w \<longleftrightarrow> x < 2 ^ w"
proof
  assume "bits x \<le> w"
  then have "(2::int) ^ bits x \<le> 2 ^ w" by simp
  with bits_upper [of x] show "x < 2 ^ w" by linarith
next
  assume a: "x < 2 ^ w"
  show "bits x \<le> w"
  proof (rule ccontr)
    assume "\<not> bits x \<le> w"
    then have w: "w \<le> bits x - 1" and pos: "0 < bits x" by simp_all
    from pos have "0 < x" by (cases "x \<le> 0") (simp_all add: bits_nonpos)
    from bits_lower [OF this] have "2 ^ (bits x - 1) \<le> x" .
    moreover from w have "(2::int) ^ w \<le> 2 ^ (bits x - 1)" by simp
    ultimately show False using a by linarith
  qed
qed

lemma bits_mono: "x \<le> y \<Longrightarrow> bits x \<le> bits y"
  using bits_upper [of y] by (simp add: bits_le_iff)

lemma rhe_bounds: "\<lfloor>x\<rfloor> \<le> rhe x \<and> rhe x \<le> \<lfloor>x\<rfloor> + 1"
  by (simp add: rhe_def Let_def)

lemma rhe_of_int: "rhe (of_int n) = n"
  by (simp add: rhe_def Let_def)

lemma rhe_mono:
  assumes "x \<le> y"
  shows "rhe x \<le> rhe y"
proof (cases "\<lfloor>x\<rfloor> = \<lfloor>y\<rfloor>")
  case True
  have "x - of_int \<lfloor>y\<rfloor> \<le> y - of_int \<lfloor>y\<rfloor>"
    using assms by simp
  then show ?thesis
    by (auto simp: rhe_def Let_def True)
next
  case False
  with assms have "\<lfloor>x\<rfloor> < \<lfloor>y\<rfloor>"
    by (simp add: floor_mono order.not_eq_order_implies_strict)
  with rhe_bounds [of x] rhe_bounds [of y] show ?thesis
    by linarith
qed

lemma grid_index_alt:
  "grid_index q = bits \<lfloor>x\<rfloor> - 24" if "x = q * 2 ^ 149"
  using that by (simp only: grid_index_def)

lemma grid_upper_aux:
  assumes "x = q * 2 ^ 149"
  shows "x < 2 ^ (24 + grid_index q)"
proof -
  have "bits \<lfloor>x\<rfloor> \<le> 24 + grid_index q"
    by (simp add: grid_index_alt [OF assms])
  then have "\<lfloor>x\<rfloor> < 2 ^ (24 + grid_index q)"
    by (simp only: bits_le_iff)
  then have "x < of_int (2 ^ (24 + grid_index q))"
    by (simp only: floor_less_iff)
  then show ?thesis
    by simp
qed

lemma grid_lower_aux:
  assumes "x = q * 2 ^ 149" and "0 < grid_index q"
  shows "2 ^ (23 + grid_index q) \<le> x"
proof -
  from assms(2) have b: "bits \<lfloor>x\<rfloor> = 24 + grid_index q"
    by (simp add: grid_index_alt [OF assms(1)])
  then have "0 < \<lfloor>x\<rfloor>"
    by (cases "\<lfloor>x\<rfloor> \<le> 0") (simp_all add: bits_nonpos)
  from bits_lower [OF this] b have "2 ^ (23 + grid_index q) \<le> \<lfloor>x\<rfloor>"
    by simp
  then have "of_int (2 ^ (23 + grid_index q)) \<le> x"
    by (simp only: le_floor_iff)
  then show ?thesis
    by simp
qed

lemma grid_mono_aux:
  assumes "x = q * 2 ^ 149" "y = r * 2 ^ 149" "x \<le> y"
  shows "grid_index q \<le> grid_index r"
proof -
  from assms(3) have "\<lfloor>x\<rfloor> \<le> \<lfloor>y\<rfloor>"
    by (rule floor_mono)
  then have "bits \<lfloor>x\<rfloor> \<le> bits \<lfloor>y\<rfloor>"
    by (rule bits_mono)
  then show ?thesis
    by (simp add: grid_index_alt [OF assms(1)] grid_index_alt [OF assms(2)])
qed

lemma round_pos_eq:
  "round_pos q = (if (2 ^ 25 - 1) * 2 ^ 103 \<le> q then PInf else Fin (grid_value q))"
  by (simp only: round_pos_def)

lemma grid_value_alt:
  "grid_value q = of_int (rhe (x / 2 ^ grid_index q)) * 2 ^ grid_index q / c"
  if "x = q * c" "c = 2 ^ 149"
  using that by (simp only: grid_value_def)

lemma grid_value_mono:
  assumes "q \<le> r"
  shows "grid_value q \<le> grid_value r"
proof -
  define c :: rat where "c = 2 ^ 149"
  define x y where "x = q * c" and "y = r * c"
  have c: "0 < c" by (simp add: c_def)
  have xq: "x = q * 2 ^ 149" and yr: "y = r * 2 ^ 149"
    by (simp_all only: x_def y_def c_def)
  have xy: "x \<le> y"
    using assms c by (simp add: x_def y_def)
  let ?i = "grid_index q" and ?k = "grid_index r"
  let ?a = "x / 2 ^ ?i" and ?b = "y / 2 ^ ?k"
  have ik: "?i \<le> ?k" using xq yr xy by (rule grid_mono_aux)
  have m: "(of_int (rhe ?a) :: rat) * 2 ^ ?i \<le> of_int (rhe ?b) * 2 ^ ?k"
  proof (cases "?i = ?k")
    case True
    have "?a \<le> ?b"
      using xy by (simp add: True divide_right_mono)
    then have "rhe ?a \<le> rhe ?b" by (rule rhe_mono)
    then show ?thesis by (simp add: True)
  next
    case False
    with ik have lt: "?i < ?k" by simp
    have "?a \<le> 2 ^ 24"
    proof -
      have "x \<le> 2 ^ 24 * 2 ^ ?i"
        using grid_upper_aux [OF xq] by (simp add: power_add)
      then show ?thesis by (simp add: pos_divide_le_eq)
    qed
    then have "rhe ?a \<le> rhe (of_int (2 ^ 24))"
      by (intro rhe_mono) simp
    then have ra: "rhe ?a \<le> 2 ^ 24"
      by (simp only: rhe_of_int)
    have "2 ^ 23 \<le> ?b"
    proof -
      from lt have "0 < ?k" by simp
      from grid_lower_aux [OF yr this] have "2 ^ 23 * 2 ^ ?k \<le> y"
        by (simp add: power_add)
      then show ?thesis by (simp add: pos_le_divide_eq)
    qed
    then have "rhe (of_int (2 ^ 23)) \<le> rhe ?b"
      by (intro rhe_mono) simp
    then have rb: "2 ^ 23 \<le> rhe ?b"
      by (simp only: rhe_of_int)
    have "(of_int (rhe ?a) :: rat) \<le> of_int (2 ^ 24)"
      using ra by (simp only: of_int_le_iff)
    then have ra': "(of_int (rhe ?a) :: rat) \<le> 2 ^ 24"
      by simp
    have "(of_int (2 ^ 23) :: rat) \<le> of_int (rhe ?b)"
      using rb by (simp only: of_int_le_iff)
    then have rb': "(2 ^ 23 :: rat) \<le> of_int (rhe ?b)"
      by simp
    have "(of_int (rhe ?a) :: rat) * 2 ^ ?i \<le> 2 ^ 24 * 2 ^ ?i"
      using ra' by (intro mult_right_mono) simp_all
    also have "(2 ^ 24 * 2 ^ ?i :: rat) = 2 ^ 23 * 2 ^ Suc ?i"
      by simp
    also have "\<dots> \<le> 2 ^ 23 * 2 ^ ?k"
      using lt by (intro mult_left_mono power_increasing) simp_all
    also have "\<dots> \<le> of_int (rhe ?b) * 2 ^ ?k"
      using rb' by (intro mult_right_mono) simp_all
    finally show ?thesis .
  qed
  have "grid_value q = of_int (rhe ?a) * 2 ^ ?i / c"
    using x_def c_def by (rule grid_value_alt)
  moreover have "grid_value r = of_int (rhe ?b) * 2 ^ ?k / c"
    using y_def c_def by (rule grid_value_alt)
  ultimately show ?thesis
    using m c by (simp only: divide_right_mono less_imp_le)
qed

lemma fle_refl: "v \<noteq> NaN \<Longrightarrow> fle v v"
  by (cases v) simp_all

lemma fle_not_NaN: "fle a b \<Longrightarrow> a \<noteq> NaN \<and> b \<noteq> NaN"
  by (cases a; cases b) simp_all

lemma fle_antisym: "fle a b \<Longrightarrow> fle b a \<Longrightarrow> a = b"
  by (cases a; cases b) simp_all

lemma fle_trans: "fle a b \<Longrightarrow> fle b c \<Longrightarrow> fle a c"
  by (cases a; cases b; cases c) simp_all

lemma fle_total: "a \<noteq> NaN \<Longrightarrow> b \<noteq> NaN \<Longrightarrow> fle a b \<or> fle b a"
  by (cases a; cases b) auto

lemma fle_between:
  assumes "fle (Fin a) v" "fle v (Fin b)"
  shows "\<exists>s. v = Fin s \<and> a \<le> s \<and> s \<le> b"
  using assms by (cases v) simp_all

lemma fle_fneg: "fle a b \<Longrightarrow> fle (fneg b) (fneg a)"
  by (cases a; cases b) simp_all

lemma grid_value_nonneg:
  assumes "0 \<le> q"
  shows "0 \<le> grid_value q"
proof -
  define c :: rat where "c = 2 ^ 149"
  define x where "x = q * c"
  have "0 \<le> x" using assms by (simp add: x_def c_def)
  then have "0 \<le> x / 2 ^ grid_index q" by simp
  then have "0 \<le> \<lfloor>x / 2 ^ grid_index q\<rfloor>" by simp
  with rhe_bounds [of "x / 2 ^ grid_index q"] have "0 \<le> rhe (x / 2 ^ grid_index q)"
    by linarith
  then have "(0::rat) \<le> of_int (rhe (x / 2 ^ grid_index q)) * 2 ^ grid_index q / c"
    by (simp add: c_def)
  then show ?thesis
    by (simp only: grid_value_alt [OF x_def c_def])
qed

lemma round_pos_not_NaN: "round_pos q \<noteq> NaN"
  by (simp add: round_pos_eq)

lemma round_pos_mono:
  assumes "q \<le> r"
  shows "fle (round_pos q) (round_pos r)"
  using assms grid_value_mono [OF assms] by (simp add: round_pos_eq)

lemma round_pos_nonneg:
  assumes "0 \<le> q"
  shows "fle (Fin 0) (round_pos q)"
  using grid_value_nonneg [OF assms] by (simp add: round_pos_eq)

lemma round32_not_NaN: "round32 q \<noteq> NaN"
proof -
  have "fneg v \<noteq> NaN" if "v \<noteq> NaN" for v
    using that by (cases v) simp_all
  then show ?thesis
    by (simp add: round32_def round_pos_not_NaN)
qed

lemma round32_mono:
  assumes "q \<le> r"
  shows "fle (round32 q) (round32 r)"
proof -
  consider "0 \<le> q" | "r < 0" | "q < 0" "0 \<le> r"
    using assms by linarith
  then show ?thesis
  proof cases
    case 1
    with assms have "0 \<le> r" by simp
    with 1 show ?thesis
      using round_pos_mono [OF assms] by (simp add: round32_def)
  next
    case 2
    with assms have "q < 0" by simp
    moreover have "fle (fneg (round_pos (- q))) (fneg (round_pos (- r)))"
      using assms by (intro fle_fneg round_pos_mono) simp
    ultimately show ?thesis
      using 2 by (simp add: round32_def)
  next
    case 3
    have "fle (Fin 0) (round_pos (- q))"
      using 3(1) by (intro round_pos_nonneg) simp
    then have "fle (fneg (round_pos (- q))) (fneg (Fin 0))"
      by (rule fle_fneg)
    then have "fle (fneg (round_pos (- q))) (Fin 0)"
      by simp
    moreover have "fle (Fin 0) (round_pos r)"
      using 3(2) by (rule round_pos_nonneg)
    ultimately have "fle (fneg (round_pos (- q))) (round_pos r)"
      by (rule fle_trans)
    with 3 show ?thesis
      by (simp add: round32_def)
  qed
qed

lemma round32_0: "round32 0 = Fin 0" by code_simp
lemma round32_1: "round32 1 = Fin 1" by code_simp
lemma round32_2: "round32 2 = Fin 2" by code_simp
lemma round32_m1: "round32 (- 1) = Fin (- 1)" by code_simp
lemma round32_least: "round32 (1 / 2 ^ 149) = Fin (1 / 2 ^ 149)" by code_simp

lemma grid_value_int: "\<exists>k::int. grid_value q * 2 ^ 149 = of_int k"
proof -
  define c :: rat where "c = 2 ^ 149"
  define x where "x = q * c"
  have c: "c \<noteq> 0" by (simp add: c_def)
  have "grid_value q * c = of_int (rhe (x / 2 ^ grid_index q) * 2 ^ grid_index q)"
    using c by (simp add: grid_value_alt [OF x_def c_def])
  then show ?thesis
    unfolding c_def by (rule exI)
qed

lemma round32_int:
  assumes "round32 q = Fin x"
  shows "\<exists>k::int. x * 2 ^ 149 = of_int k"
proof (cases "q < 0")
  case False
  with assms have "x = grid_value q"
    by (simp add: round32_def round_pos_eq split: if_splits)
  with grid_value_int [of q] show ?thesis by simp
next
  case True
  with assms have "x = - grid_value (- q)"
    by (simp add: round32_def round_pos_eq split: if_splits)
  moreover obtain k :: int where "grid_value (- q) * 2 ^ 149 = of_int k"
    using grid_value_int [of "- q"] by blast
  ultimately have "x * 2 ^ 149 = of_int (- k)"
    by simp
  then show ?thesis by (rule exI)
qed

lemma round32_gap:
  assumes "round32 a = Fin x" "round32 b = Fin y" "x < y"
  shows "fle (Fin (1 / 2 ^ 149)) (round32 (y - x))"
proof -
  define c :: rat where "c = 2 ^ 149"
  have c: "0 < c" by (simp add: c_def)
  obtain k l :: int where k: "x * c = of_int k" and l: "y * c = of_int l"
    using round32_int [OF assms(1)] round32_int [OF assms(2)] unfolding c_def by blast
  have "x * c < y * c" using assms(3) c by simp
  then have "k < l" by (simp add: k l)
  then have "k + 1 \<le> l" by simp
  then have "(of_int (k + 1) :: rat) \<le> of_int l" by (simp only: of_int_le_iff)
  then have "x * c + 1 \<le> y * c" by (simp add: k l)
  then have "1 \<le> (y - x) * c" by (simp add: algebra_simps)
  then have "1 / c \<le> y - x" using c by (simp add: pos_divide_le_eq)
  then have "fle (round32 (1 / c)) (round32 (y - x))" by (rule round32_mono)
  then show ?thesis
    by (simp only: c_def round32_least)
qed

subsection \<open>Columns of the result\<close>

lemma rect_length: "rect X \<Longrightarrow> r \<in> set X \<Longrightarrow> length r = length (hd X)"
  by (simp add: rect_def list_all_iff)

lemma length_col_mins: "length (col_mins X) = length (hd X)"
  by (simp add: col_mins_def)

lemma length_col_maxs: "length (col_maxs X) = length (hd X)"
  by (simp add: col_maxs_def)

lemma col_mins_nth: "j < length (hd X) \<Longrightarrow> col_mins X ! j = reduce fmin (col X j)"
  by (simp add: col_mins_def)

lemma col_maxs_nth: "j < length (hd X) \<Longrightarrow> col_maxs X ! j = reduce fmax (col X j)"
  by (simp add: col_maxs_def)

lemma col_shifted:
  assumes "rect X" "j < length (hd X)"
  shows "col (shifted X) j = map (\<lambda>v. fsub v (reduce fmin (col X j))) (col X j)"
proof -
  define m where "m = reduce fmin (col X j)"
  have m: "col_mins X ! j = m"
    using assms(2) by (simp add: col_mins_nth m_def)
  have "map2 fsub r (col_mins X) ! j = fsub (r ! j) m" if "r \<in> set X" for r
    using rect_length [OF assms(1) that] assms(2) by (simp add: length_col_mins m)
  then have "col (shifted X) j = map (\<lambda>v. fsub v m) (col X j)"
    by (simp add: col_def shifted_def)
  then show ?thesis
    by (simp only: m_def)
qed

lemma rect_shifted: "rect X \<Longrightarrow> rect (shifted X)"
  by (cases X) (simp_all add: rect_def shifted_def list_all_iff length_col_mins)

lemma hd_shifted_length: "X \<noteq> [] \<Longrightarrow> length (hd (shifted X)) = length (hd X)"
  by (cases X) (simp_all add: shifted_def length_col_mins)

lemma col_scaled:
  assumes "rect Y" "j < length (hd Y)"
  shows "col (scaled Y) j
       = map (\<lambda>v. fsub (fmul (Fin 2) (fdiv v (reduce fmax (col Y j)))) (Fin 1)) (col Y j)"
proof -
  define D where "D = reduce fmax (col Y j)"
  have D: "col_maxs Y ! j = D"
    using assms(2) by (simp add: col_maxs_nth D_def)
  have "map2 (\<lambda>x m. fsub (fmul (Fin 2) (fdiv x m)) (Fin 1)) r (col_maxs Y) ! j
        = fsub (fmul (Fin 2) (fdiv (r ! j) D)) (Fin 1)" if "r \<in> set Y" for r
    using rect_length [OF assms(1) that] assms(2) by (simp add: length_col_maxs D)
  then have "col (scaled Y) j = map (\<lambda>v. fsub (fmul (Fin 2) (fdiv v D)) (Fin 1)) (col Y j)"
    by (simp add: col_def scaled_def)
  then show ?thesis
    by (simp only: D_def)
qed

lemma hd_features_length: "data \<noteq> [] \<Longrightarrow> length (hd (features data)) = length (hd data) - 1"
  by (cases data) (simp_all add: features_def)

lemma rect_features: "rect data \<Longrightarrow> rect (features data)"
  by (cases data) (simp_all add: rect_def features_def list_all_iff)

lemma col_features:
  assumes "rect data" "j < length (hd data) - 1"
  shows "col (features data) j = col data j"
proof -
  have "butlast r ! j = r ! j" if "r \<in> set data" for r
    using rect_length [OF assms(1) that] assms(2) by (simp add: nth_butlast)
  then show ?thesis
    by (simp add: col_def features_def)
qed

lemma rect_tensor: "rect raw \<Longrightarrow> rect (tensor raw)"
  by (cases raw) (simp_all add: rect_def tensor_def list_all_iff)

lemma hd_tensor_length: "raw \<noteq> [] \<Longrightarrow> length (hd (tensor raw)) = length (hd raw)"
  by (cases raw) (simp_all add: tensor_def)

lemma col_tensor:
  assumes "rect raw" "j < length (hd raw)"
  shows "col (tensor raw) j = map round32 (col raw j)"
proof -
  have "map round32 r ! j = round32 (r ! j)" if "r \<in> set raw" for r
    using rect_length [OF assms(1) that] assms(2) by simp
  then show ?thesis
    by (simp add: col_def tensor_def)
qed

text \<open>Column j of the result and the divisor used for it, from column j of the tensor.\<close>

lemma divisor_column:
  assumes "raw \<noteq> []" "rect raw" "j < length (hd raw) - 1"
  shows "divisors raw ! j
       = reduce fmax (map (\<lambda>v. fsub v (reduce fmin (col (tensor raw) j)))
           (col (tensor raw) j))"
proof -
  let ?T = "tensor raw"
  have ne: "?T \<noteq> []" "features ?T \<noteq> []"
    using assms(1) by (simp_all add: tensor_def features_def)
  have w: "j < length (hd (features ?T))"
    using assms(1,3) ne by (simp add: hd_features_length hd_tensor_length)
  have r: "rect (features ?T)"
    using assms(2) by (intro rect_features rect_tensor)
  have c: "col (features ?T) j = col ?T j"
    using assms ne by (intro col_features rect_tensor) (simp_all add: hd_tensor_length)
  have "divisors raw ! j = reduce fmax (col (shifted (features ?T)) j)"
    using w ne by (simp add: divisors_def col_maxs_nth hd_shifted_length)
  then show ?thesis
    by (simp add: col_shifted [OF r w] c)
qed

lemma result_column:
  assumes "raw \<noteq> []" "rect raw" "j < length (hd raw) - 1"
  shows "col (scaled (shifted (features (tensor raw)))) j
       = map (\<lambda>v. fsub (fmul (Fin 2)
                 (fdiv (fsub v (reduce fmin (col (tensor raw) j))) (divisors raw ! j)))
               (Fin 1))
           (col (tensor raw) j)"
proof -
  let ?T = "tensor raw"
  have ne: "?T \<noteq> []" "features ?T \<noteq> []"
    using assms(1) by (simp_all add: tensor_def features_def)
  have w: "j < length (hd (features ?T))"
    using assms(1,3) ne by (simp add: hd_features_length hd_tensor_length)
  have r: "rect (features ?T)"
    using assms(2) by (intro rect_features rect_tensor)
  have c: "col (features ?T) j = col ?T j"
    using assms ne by (intro col_features rect_tensor) (simp_all add: hd_tensor_length)
  have w': "j < length (hd (shifted (features ?T)))"
    using w ne by (simp add: hd_shifted_length)
  have d: "reduce fmax (col (shifted (features ?T)) j) = divisors raw ! j"
    using w' by (simp add: divisors_def col_maxs_nth)
  have "col (scaled (shifted (features ?T))) j
        = map (\<lambda>v. fsub (fmul (Fin 2) (fdiv v (divisors raw ! j))) (Fin 1))
            (col (shifted (features ?T)) j)"
    using col_scaled [OF rect_shifted [OF r] w'] by (simp only: d)
  then show ?thesis
    by (simp add: col_shifted [OF r w] c o_def)
qed

lemma normalize_Inr:
  assumes "raw \<noteq> []" "1 < length (hd raw)"
  shows "normalize_features raw
       = Inr (scaled (shifted (features (tensor raw))), map last (tensor raw))"
  using assms by (simp add: normalize_features_def Let_def)

lemma length_result_column:
  "length (col (scaled (shifted (features (tensor raw)))) j) = length raw"
  by (simp add: col_def scaled_def shifted_def features_def tensor_def)

lemma fmax_cases: "a \<noteq> NaN \<Longrightarrow> b \<noteq> NaN \<Longrightarrow>
    fmax a b \<noteq> NaN \<and> (fmax a b = a \<or> fmax a b = b) \<and> fle a (fmax a b) \<and> fle b (fmax a b)"
  using fle_total [of a b] by (auto simp: fmax_def fle_refl)

lemma fmin_cases: "a \<noteq> NaN \<Longrightarrow> b \<noteq> NaN \<Longrightarrow>
    fmin a b \<noteq> NaN \<and> (fmin a b = a \<or> fmin a b = b) \<and> fle (fmin a b) a \<and> fle (fmin a b) b"
  using fle_total [of a b] by (auto simp: fmin_def fle_refl)

lemma fold_fmax:
  assumes "acc \<noteq> NaN" "\<forall>v \<in> set xs. v \<noteq> NaN"
  shows "fold fmax xs acc \<in> insert acc (set xs)
       \<and> fle acc (fold fmax xs acc)
       \<and> (\<forall>v \<in> set xs. fle v (fold fmax xs acc))"
  using assms
proof (induction xs arbitrary: acc)
  case Nil
  then show ?case by (simp add: fle_refl)
next
  case (Cons a xs)
  from Cons.prems have a: "a \<noteq> NaN" and xs: "\<forall>v \<in> set xs. v \<noteq> NaN" by simp_all
  note f = fmax_cases [OF a Cons.prems(1)]
  from f have n: "fmax a acc \<noteq> NaN" by simp
  note ih = Cons.IH [OF n xs]
  have 1: "fold fmax (a # xs) acc \<in> insert acc (set (a # xs))"
    using ih f by auto
  have 2: "fle acc (fold fmax (a # xs) acc)"
    using ih f by (auto intro: fle_trans)
  have 3: "fle a (fold fmax (a # xs) acc)"
    using ih f by (auto intro: fle_trans)
  from 1 2 3 ih show ?case by simp
qed

lemma fold_fmin:
  assumes "acc \<noteq> NaN" "\<forall>v \<in> set xs. v \<noteq> NaN"
  shows "fold fmin xs acc \<in> insert acc (set xs)
       \<and> fle (fold fmin xs acc) acc
       \<and> (\<forall>v \<in> set xs. fle (fold fmin xs acc) v)"
  using assms
proof (induction xs arbitrary: acc)
  case Nil
  then show ?case by (simp add: fle_refl)
next
  case (Cons a xs)
  from Cons.prems have a: "a \<noteq> NaN" and xs: "\<forall>v \<in> set xs. v \<noteq> NaN" by simp_all
  note f = fmin_cases [OF a Cons.prems(1)]
  from f have n: "fmin a acc \<noteq> NaN" by simp
  note ih = Cons.IH [OF n xs]
  have 1: "fold fmin (a # xs) acc \<in> insert acc (set (a # xs))"
    using ih f by auto
  have 2: "fle (fold fmin (a # xs) acc) acc"
    using ih f by (auto intro: fle_trans)
  have 3: "fle (fold fmin (a # xs) acc) a"
    using ih f by (auto intro: fle_trans)
  from 1 2 3 ih show ?case by simp
qed

lemma reduce_fmax:
  assumes "xs \<noteq> []" "\<forall>v \<in> set xs. v \<noteq> NaN"
  shows "reduce fmax xs \<in> set xs" "\<forall>v \<in> set xs. fle v (reduce fmax xs)"
proof -
  obtain x ys where xs: "xs = x # ys" using assms(1) by (cases xs) auto
  with assms(2) have "x \<noteq> NaN" "\<forall>v \<in> set ys. v \<noteq> NaN" by simp_all
  from fold_fmax [OF this] show "reduce fmax xs \<in> set xs" "\<forall>v \<in> set xs. fle v (reduce fmax xs)"
    by (simp_all add: reduce_def xs)
qed

lemma reduce_fmin:
  assumes "xs \<noteq> []" "\<forall>v \<in> set xs. v \<noteq> NaN"
  shows "reduce fmin xs \<in> set xs" "\<forall>v \<in> set xs. fle (reduce fmin xs) v"
proof -
  obtain x ys where xs: "xs = x # ys" using assms(1) by (cases xs) auto
  with assms(2) have "x \<noteq> NaN" "\<forall>v \<in> set ys. v \<noteq> NaN" by simp_all
  from fold_fmin [OF this] show "reduce fmin xs \<in> set xs" "\<forall>v \<in> set xs. fle (reduce fmin xs) v"
    by (simp_all add: reduce_def xs)
qed





lemma constant_col_iff: "constant_col xs \<longleftrightarrow> (\<forall>x \<in> set xs. x = hd xs)"
  by (simp add: constant_col_def list_all_iff)

lemma is_finite_iff: "is_finite v \<longleftrightarrow> (\<exists>q. v = Fin q)"
  by (cases v) simp_all




text \<open>A column that is constant in the file is constant as binary32 values.\<close>

lemma constant_col_tensor:
  assumes "rect raw" and "j < length (hd raw)" and "constant_col (col raw j)"
  shows "constant_col (col (tensor raw) j)"
proof (cases raw)
  case Nil
  then show ?thesis by (simp add: constant_col_def col_def tensor_def)
next
  case (Cons r rs)
  have "\<forall>x \<in> set (col raw j). x = hd (col raw j)"
    using assms(3) by (simp only: constant_col_iff)
  then have "\<forall>x \<in> set (map round32 (col raw j)). x = round32 (hd (col raw j))"
    by simp
  moreover have "hd (map round32 (col raw j)) = round32 (hd (col raw j))"
    using Cons by (simp add: col_def)
  ultimately have "constant_col (map round32 (col raw j))"
    by (simp only: constant_col_iff)
  then show ?thesis
    using col_tensor [OF assms(1,2)] by simp
qed


lemma fold_fmax_NaN:
  assumes "acc = NaN \<or> NaN \<in> set xs"
  shows "fold fmax xs acc = NaN"
  using assms by (induction xs arbitrary: acc) (auto simp: fmax_def)

lemma reduce_fmax_NaN:
  assumes "NaN \<in> set xs"
  shows "reduce fmax xs = NaN"
proof -
  obtain x ys where xs: "xs = x # ys" using assms by (cases xs) auto
  with assms have "x = NaN \<or> NaN \<in> set ys" by auto
  from fold_fmax_NaN [OF this] show ?thesis
    by (simp add: reduce_def xs)
qed

text \<open>A finite divisor means that no entry of the column is infinite.\<close>

lemma column_finite:
  assumes ne: "c \<noteq> []" and nn: "\<forall>v \<in> set c. v \<noteq> NaN"
    and D: "is_finite (reduce fmax (map (\<lambda>v. fsub v (reduce fmin c)) c))"
  shows "\<forall>v \<in> set c. is_finite v"
proof
  define m where "m = reduce fmin c"
  let ?s = "map (\<lambda>v. fsub v m) c"
  note D' = D [folded m_def]
  have m_in: "m \<in> set c" and m_le: "\<forall>v \<in> set c. fle m v"
    using reduce_fmin [OF ne nn] by (simp_all add: m_def)
  have no_nan: "NaN \<notin> set ?s"
  proof
    assume "NaN \<in> set ?s"
    from reduce_fmax_NaN [OF this] D' show False by simp
  qed
  have "fsub m m \<in> set ?s" using m_in by simp
  with no_nan have "fsub m m \<noteq> NaN" by metis
  then obtain \<mu> where \<mu>: "m = Fin \<mu>"
    by (cases m) simp_all
  fix v assume v: "v \<in> set c"
  from bspec [OF m_le v] have le: "fle (Fin \<mu>) v" by (simp only: \<mu>)
  show "is_finite v"
  proof (cases v)
    case (Fin x)
    then show ?thesis by simp
  next
    case PInf
    have "fsub v m \<in> set ?s" using v by simp
    then have p: "PInf \<in> set ?s" by (simp only: PInf \<mu> fsub.simps)
    have "\<forall>u \<in> set ?s. u \<noteq> NaN" using no_nan by metis
    moreover have "?s \<noteq> []" using ne by simp
    ultimately have "\<forall>u \<in> set ?s. fle u (reduce fmax ?s)"
      by (intro reduce_fmax)
    from bspec [OF this p] have "reduce fmax ?s = PInf"
      by (cases "reduce fmax ?s") simp_all
    with D' show ?thesis by simp
  next
    case NInf
    with le show ?thesis by simp
  next
    case NaN
    with le show ?thesis by simp
  qed
qed

text \<open>
  C2, as amended. The cell returns the normalised features and, unscaled, the target
  \<open>y\<close>, the last column of the tensor. Every feature column \<open>j\<close> that takes at least
  two distinct binary32 values and whose divisor (its maximum after its minimum is
  subtracted, the range of the column) is finite has all its entries finite and between
  \<open>-1\<close> and \<open>1\<close>, an entry equal to \<open>-1\<close> and an entry equal to \<open>1\<close>: minimum
  exactly \<open>-1\<close>, maximum exactly \<open>1\<close>, in binary32 arithmetic.
\<close>

theorem normalize_range:
  assumes "raw \<noteq> []" and "rect raw" and "j < length (hd raw) - 1"
    and "\<not> constant_col (col (tensor raw) j)"
    and "is_finite (divisors raw ! j)"
  shows "\<exists>X y. normalize_features raw = Inr (X, y)
           \<and> y = map last (tensor raw)
           \<and> length (col X j) = length raw
           \<and> (\<forall>v \<in> set (col X j). \<exists>q. v = Fin q \<and> - 1 \<le> q \<and> q \<le> 1)
           \<and> Fin (- 1) \<in> set (col X j)
           \<and> Fin 1 \<in> set (col X j)"
proof -
  let ?c = "col (tensor raw) j"
  let ?X = "scaled (shifted (features (tensor raw)))"
  define m where "m = reduce fmin ?c"
  define D where "D = divisors raw ! j"
  define g where "g = (\<lambda>v. fsub (fmul (Fin 2) (fdiv (fsub v m) D)) (Fin 1))"
  have w: "1 < length (hd raw)" "j < length (hd raw)" using assms(3) by auto
  have ne: "?c \<noteq> []"
    using assms(1) by (simp add: col_def tensor_def)
  have rnd: "\<forall>v \<in> set ?c. \<exists>q. v = round32 q"
    using col_tensor [OF assms(2) w(2)] by auto
  have nn: "\<forall>v \<in> set ?c. v \<noteq> NaN"
  proof
    fix v assume "v \<in> set ?c"
    from bspec [OF rnd this] obtain q where "v = round32 q" ..
    then show "v \<noteq> NaN" by (simp add: round32_not_NaN)
  qed
  have "is_finite (reduce fmax (map (\<lambda>v. fsub v (reduce fmin ?c)) ?c))"
    using assms(5) by (simp only: divisor_column [OF assms(1-3)])
  from column_finite [OF ne nn this] have fin: "\<forall>v \<in> set ?c. \<exists>q. v = Fin q"
    by (simp add: is_finite_iff)
  have m_in: "m \<in> set ?c" and m_le: "\<forall>v \<in> set ?c. fle m v"
    using reduce_fmin [OF ne nn] by (simp_all add: m_def)
  from bspec [OF fin m_in] obtain \<mu> where \<mu>: "m = Fin \<mu>" ..
  from bspec [OF rnd m_in] obtain a where "m = round32 a" ..
  then have a: "round32 a = Fin \<mu>" using \<mu> by simp
  let ?s = "map (\<lambda>v. fsub v m) ?c"
  have Ds: "D = reduce fmax ?s"
    using divisor_column [OF assms(1-3)] by (simp only: D_def m_def)
  have s0: "fle (Fin 0) (fsub v m)" if vc: "v \<in> set ?c" for v
  proof -
    from bspec [OF fin vc] obtain x where x: "v = Fin x" ..
    from bspec [OF m_le vc] have "\<mu> \<le> x" by (simp add: \<mu> x)
    then have "fle (round32 0) (round32 (x - \<mu>))" by (intro round32_mono) simp
    then show ?thesis by (simp add: x \<mu> round32_0)
  qed
  have snn: "\<forall>u \<in> set ?s. u \<noteq> NaN"
    using s0 fle_not_NaN by auto
  have sne: "?s \<noteq> []" using ne by simp
  have D_in: "D \<in> set ?s" and D_ge: "\<forall>u \<in> set ?s. fle u D"
    using reduce_fmax [OF sne snn] by (simp_all add: Ds)
  obtain d where d: "D = Fin d" using assms(5) by (auto simp: D_def is_finite_iff)
  have sfin: "\<exists>t. fsub v m = Fin t \<and> 0 \<le> t \<and> t \<le> d" if vc: "v \<in> set ?c" for v
  proof -
    have "fsub v m \<in> set ?s" using vc by simp
    from bspec [OF D_ge this] have "fle (fsub v m) (Fin d)" by (simp only: d)
    with s0 [OF vc] show ?thesis by (rule fle_between)
  qed
  have dpos: "0 < d"
  proof -
    from assms(4) obtain v where v: "v \<in> set ?c" "v \<noteq> hd ?c"
      by (auto simp: constant_col_iff)
    have "\<exists>u \<in> set ?c. u \<noteq> m"
    proof (cases "v = m")
      case False with v(1) show ?thesis by blast
    next
      case True
      with v(2) have "hd ?c \<noteq> m" by simp
      moreover have "hd ?c \<in> set ?c" using ne by simp
      ultimately show ?thesis by blast
    qed
    then obtain u where u: "u \<in> set ?c" "u \<noteq> m" by blast
    from bspec [OF fin u(1)] obtain x where x: "u = Fin x" ..
    from bspec [OF rnd u(1)] obtain b where "u = round32 b" ..
    then have b: "round32 b = Fin x" using x by simp
    from bspec [OF m_le u(1)] have "\<mu> \<le> x" by (simp add: \<mu> x)
    with u(2) have "\<mu> < x" by (simp add: \<mu> x)
    define eps :: rat where "eps = 1 / 2 ^ 149"
    have eps: "0 < eps" by (simp add: eps_def)
    from round32_gap [OF a b \<open>\<mu> < x\<close>] have "fle (Fin eps) (round32 (x - \<mu>))"
      by (simp only: eps_def)
    then have g: "fle (Fin eps) (fsub u m)"
      by (simp only: x \<mu> fsub.simps)
    obtain t where t: "fsub u m = Fin t" "t \<le> d" using sfin [OF u(1)] by blast
    from g have "eps \<le> t" by (simp only: t(1) fle.simps)
    with t(2) eps show ?thesis by linarith
  qed
  have unit: "\<exists>q. g v = Fin q \<and> - 1 \<le> q \<and> q \<le> 1" if vc: "v \<in> set ?c" for v
  proof -
    obtain t where t: "fsub v m = Fin t" "0 \<le> t" "t \<le> d" using sfin [OF vc] by blast
    have "0 \<le> t / d" "t / d \<le> 1" using t dpos by simp_all
    then have "fle (round32 0) (round32 (t / d))" "fle (round32 (t / d)) (round32 1)"
      by (simp_all add: round32_mono)
    then obtain r where r: "round32 (t / d) = Fin r" "0 \<le> r" "r \<le> 1"
      using fle_between [of 0 "round32 (t / d)" 1] by (auto simp: round32_0 round32_1)
    have "0 \<le> 2 * r" "2 * r \<le> 2" using r by simp_all
    then have "fle (round32 0) (round32 (2 * r))" "fle (round32 (2 * r)) (round32 2)"
      by (simp_all add: round32_mono)
    then obtain p where p: "round32 (2 * r) = Fin p" "0 \<le> p" "p \<le> 2"
      using fle_between [of 0 "round32 (2 * r)" 2] by (auto simp: round32_0 round32_2)
    have "- 1 \<le> p - 1" "p - 1 \<le> 1" using p by simp_all
    then have "fle (round32 (- 1)) (round32 (p - 1))" "fle (round32 (p - 1)) (round32 1)"
      by (simp_all add: round32_mono)
    then obtain q where q: "round32 (p - 1) = Fin q" "- 1 \<le> q" "q \<le> 1"
      using fle_between [of "- 1" "round32 (p - 1)" 1] by (auto simp: round32_m1 round32_1)
    have "g v = Fin q"
      using dpos by (simp add: g_def t d r p q)
    with q show ?thesis by blast
  qed
  have lo: "g m = Fin (- 1)"
    using dpos by (simp add: g_def \<mu> d round32_0 round32_m1)
  obtain vM where vM: "vM \<in> set ?c" "fsub vM m = D"
    using D_in by auto
  have hi: "g vM = Fin 1"
    using dpos by (simp add: g_def vM d round32_1 round32_2)
  have eq: "col ?X j = map g ?c"
    using result_column [OF assms(1-3)] by (simp only: g_def m_def D_def)
  have 1: "normalize_features raw = Inr (?X, map last (tensor raw))"
    using assms(1) w(1) by (rule normalize_Inr)
  have 2: "length (col ?X j) = length raw"
    by (rule length_result_column)
  have 3: "\<forall>v \<in> set (col ?X j). \<exists>q. v = Fin q \<and> - 1 \<le> q \<and> q \<le> 1"
    using unit by (auto simp: eq)
  have 4: "Fin (- 1) \<in> set (col ?X j)"
    unfolding eq set_map using lo [symmetric] m_in by (rule image_eqI)
  have 5: "Fin 1 \<in> set (col ?X j)"
    unfolding eq set_map using hi [symmetric] vM(1) by (rule image_eqI)
  show ?thesis
    by (intro exI [of _ ?X] exI [of _ "map last (tensor raw)"] conjI 1 refl 2 3 4 5)
qed

theorem normalize_range_witness:
  "\<exists>X y. normalize_features [[1 / 10, 7], [3 / 10, 8], [2 / 10, 9]] = Inr (X, y)
      \<and> length (col X 0) = 3
      \<and> Fin (- 1) \<in> set (col X 0) \<and> Fin 1 \<in> set (col X 0)"
proof -
  let ?R = "[[1 / 10, 7], [3 / 10, 8], [2 / 10, 9 :: rat]]"
  have h1: "?R \<noteq> []" by simp
  have h2: "rect ?R" by (simp add: rect_def)
  have h3: "0 < length (hd ?R) - 1" by simp
  have h4: "\<not> constant_col (col (tensor ?R) 0)" by code_simp
  have h5: "is_finite (divisors ?R ! 0)" by code_simp
  from normalize_range [OF h1 h2 h3 h4 h5] show ?thesis
    by auto
qed


text \<open>
  C2 as stated fails on a dataset with a constant feature column: the column comes out as
  \<open>NaN\<close>, with neither \<open>-1\<close> nor \<open>1\<close> in it.
\<close>

theorem normalize_constant_counterexample:
  "normalize_features [[5, 1], [5, 2]] = Inr ([[NaN], [NaN]], [Fin 1, Fin 2])
   \<and> Fin (- 1) \<notin> set (col [[NaN], [NaN]] 0)
   \<and> Fin 1 \<notin> set (col [[NaN], [NaN]] 0)"
proof -
  have "normalize_features [[5, 1], [5, 2]] = Inr ([[NaN], [NaN]], [Fin 1, Fin 2])"
    by code_simp
  then show ?thesis
    by (simp add: col_def)
qed

text \<open>
  The two conditions of the amended C2 are on the binary32 values for a reason. Two
  numbers of the file that differ can be one binary32 value, which makes the column
  constant; and a column whose range overflows has an infinite divisor, which leaves
  \<open>NaN\<close> where the maximum was.
\<close>

lemma float32_collapse_example:
  "normalize_features [[16777216, 7], [16777217, 8]] = Inr ([[NaN], [NaN]], [Fin 7, Fin 8])"
  by code_simp

lemma float32_overflow_example:
  "normalize_features [[2 ^ 127, 1], [- (2 ^ 127), 2]]
     = Inr ([[NaN], [Fin (- 1)]], [Fin 1, Fin 2])
   \<and> divisors [[2 ^ 127, 1], [- (2 ^ 127), 2]] ! 0 = PInf"
  by code_simp

text \<open>
  A constant that is too large for binary32 is infinite in the tensor; the column is
  \<open>NaN\<close> as for every constant column, without a division by zero.
\<close>

lemma float32_infinite_constant_example:
  "normalize_features [[2 ^ 128, 1], [2 ^ 128, 2]] = Inr ([[NaN], [NaN]], [Fin 1, Fin 2])
   \<and> divisors [[2 ^ 128, 1], [2 ^ 128, 2]] ! 0 = NaN"
  by code_simp

section \<open>Properties of the dataset selection\<close>

text \<open>
  C7. Dataset selection raises if and only if the name is neither \<open>'cifar10'\<close> nor
  \<open>'cifar100'\<close>, and then with the message naming the two accepted values; for either
  accepted name it returns the datasets, the loaders and the class count (10 and 100).
\<close>

theorem select_dataset_guard:
  "(isl (select_dataset dataset) \<longleftrightarrow> dataset \<notin> {''cifar10'', ''cifar100''})
 \<and> (dataset \<notin> {''cifar10'', ''cifar100''}
      \<longrightarrow> select_dataset dataset = Inl (RuntimeError dataset_error))
 \<and> select_dataset ''cifar10'' = Inr (select_with CIFAR10 10)
 \<and> select_dataset ''cifar100'' = Inr (select_with CIFAR100 100)
 \<and> num_classes (select_with CIFAR10 10) = 10
 \<and> num_classes (select_with CIFAR100 100) = 100
 \<and> d_func (select_with CIFAR10 10) = CIFAR10
 \<and> d_func (select_with CIFAR100 100) = CIFAR100"
  by (simp add: select_dataset_def select_with_def Let_def)

theorem select_dataset_guard_witness:
  "select_dataset ''mnist'' = Inl (RuntimeError dataset_error)
 \<and> isl (select_dataset ''CIFAR10'')
 \<and> \<not> isl (select_dataset ''cifar10'')"
proof -
  have a: "''mnist'' \<notin> {''cifar10'', ''cifar100''}" by simp
  have b: "''CIFAR10'' \<notin> {''cifar10'', ''cifar100''}" by simp
  have c: "\<not> ''cifar10'' \<notin> {''cifar10'', ''cifar100''}" by simp
  have "select_dataset ''mnist'' = Inl (RuntimeError dataset_error)"
    using select_dataset_guard [of "''mnist''", THEN conjunct2, THEN conjunct1] a
    by (rule mp)
  moreover have "isl (select_dataset ''CIFAR10'')"
    using select_dataset_guard [of "''CIFAR10''", THEN conjunct1] b
    by (rule iffD2)
  moreover have "\<not> isl (select_dataset ''cifar10'')"
    using select_dataset_guard [of "''cifar10''", THEN conjunct1] c
    by simp
  ultimately show ?thesis by (intro conjI)
qed

section \<open>Properties of the training loops\<close>

lemma love_iteration_eq:
  "love_iteration L d n i s =
     s\<lparr> learner := iteration_update L d (learner s),
        stdout := stdout s @ [LoveLoss (i + 1) n (iteration_loss L d (learner s))],
        calls := calls s @ iteration_calls,
        losses := losses s @ [iteration_loss L d (learner s)] \<rparr>"
  by (simp add: love_iteration_def iteration_update_def iteration_loss_def iteration_calls_def
      Let_def)

lemma dkl_iteration_eq:
  "dkl_iteration L e T (i, b) s =
     s\<lparr> learner := iteration_update L b (learner s),
        stdout := stdout s @ (if (int i + 1) mod 50 = 0
                   then [DklLoss e (int i + 1) T (iteration_loss L b (learner s))] else []),
        calls := calls s @ iteration_calls,
        losses := losses s @ [iteration_loss L b (learner s)] \<rparr>"
  by (simp add: dkl_iteration_def iteration_update_def iteration_loss_def iteration_calls_def
      Let_def)

lemma concat_replicate_Suc_snoc:
  "concat (replicate k xs) @ xs = concat (replicate (Suc k) xs)"
proof -
  have "concat (replicate k xs) @ xs = concat (replicate k xs @ [xs])" by simp
  also have "replicate k xs @ [xs] = replicate (Suc k) xs"
    by (simp add: replicate_append_same)
  finally show ?thesis .
qed

lemma love_fold:
  fixes L :: "('t, 'b, 'o, 'sd) lib" and d :: 'b and n :: int and s :: "('t, 'f) kernel"
  defines "r \<equiv> \<lambda>k. fold (love_iteration L d n) (map int [0..<k]) s"
  shows "learner (r k) = (iteration_update L d ^^ k) (learner s)
       \<and> stdout (r k) = stdout s @ map (\<lambda>i. LoveLoss (int i + 1) n
                  (iteration_loss L d ((iteration_update L d ^^ i) (learner s)))) [0..<k]
       \<and> calls (r k) = calls s @ concat (replicate k iteration_calls)
       \<and> files (r k) = files s
       \<and> losses (r k) = losses s @ map (\<lambda>i. iteration_loss L d
                  ((iteration_update L d ^^ i) (learner s))) [0..<k]"
proof (induction k)
  case 0
  show ?case by (simp add: r_def)
next
  case (Suc k)
  have step: "r (Suc k) = love_iteration L d n (int k) (r k)"
    by (simp add: r_def)
  show ?case
    unfolding step love_iteration_eq
    using Suc by (simp add: concat_replicate_Suc_snoc [symmetric] del: replicate_Suc)
qed

lemma count_iteration_calls:
  "count_list (concat (replicate k iteration_calls)) OptimizerStep = k"
  by (induction k) (simp_all add: iteration_calls_def)

lemma every_50_nat: "((int i + 1) mod 50 = 0) = (Suc i mod 50 = 0)"
proof -
  have "int (Suc i mod 50) = (int i + 1) mod 50"
    by (simp add: zmod_int add.commute)
  then show ?thesis
    by (metis of_nat_eq_0_iff)
qed

lemma count_every_50: "length (filter (\<lambda>i. (int i + 1) mod 50 = 0) [0..<m]) = m div 50"
proof (induction m)
  case 0
  show ?case by simp
next
  case (Suc m)
  show ?case
    using Suc by (simp add: every_50_nat div_Suc del: upt_Suc add: upt_Suc_append)
qed

lemma dkl_fold:
  fixes L :: "('t, 'b, 'o, 'sd) lib" and e T :: int and s :: "('t, 'f) kernel"
  defines "r \<equiv> \<lambda>bs. fold (dkl_iteration L e T) (enumerate 0 bs) s"
  shows "learner (r bs) = fold (iteration_update L) bs (learner s)
       \<and> stdout (r bs) = stdout s @ map (\<lambda>i. DklLoss e (int i + 1) T
                  (iteration_loss L (bs ! i) (fold (iteration_update L) (take i bs) (learner s))))
                  (filter (\<lambda>i. (int i + 1) mod 50 = 0) [0..<length bs])
       \<and> calls (r bs) = calls s @ concat (replicate (length bs) iteration_calls)
       \<and> files (r bs) = files s
       \<and> losses (r bs) = losses s @ map (\<lambda>i. iteration_loss L (bs ! i)
                  (fold (iteration_update L) (take i bs) (learner s))) [0..<length bs]"
proof (induction bs rule: rev_induct)
  case Nil
  show ?case by (simp add: r_def)
next
  case (snoc b bs)
  have step: "r (bs @ [b]) = dkl_iteration L e T (length bs, b) (r bs)"
    by (simp add: r_def enumerate_append_eq)
  let ?P = "\<lambda>i. (int i + 1) mod 50 = 0"
  let ?g = "\<lambda>xs i. DklLoss e (int i + 1) T
              (iteration_loss L (xs ! i) (fold (iteration_update L) (take i xs) (learner s)))"
  have old: "map (?g (bs @ [b])) (filter ?P [0..<length bs]) = map (?g bs) (filter ?P [0..<length bs])"
    by (rule map_cong) (auto simp: nth_append)
  have new: "?g (bs @ [b]) (length bs)
             = DklLoss e (int (length bs) + 1) T
                 (iteration_loss L b (fold (iteration_update L) bs (learner s)))"
    by simp
  let ?h = "\<lambda>xs i. iteration_loss L (xs ! i)
              (fold (iteration_update L) (take i xs) (learner s))"
  have old_loss: "map (?h (bs @ [b])) [0..<length bs] = map (?h bs) [0..<length bs]"
    by (rule map_cong) (auto simp: nth_append)
  show ?case
    unfolding step dkl_iteration_eq
    using snoc old new old_loss
    by (simp add: concat_replicate_Suc_snoc [symmetric] del: replicate_Suc)
qed

lemma love_train_eq:
  "learner (love_train L d n s) = (iteration_update L d ^^ nat n) (learner s)"
  "stdout (love_train L d n s) = stdout s @ map (\<lambda>i. LoveLoss (int i + 1) n
       (iteration_loss L d ((iteration_update L d ^^ i) (learner s)))) [0..<nat n]"
  "calls (love_train L d n s) = calls s @ concat (replicate (nat n) iteration_calls)"
  "files (love_train L d n s) = files s"
  "losses (love_train L d n s) = losses s @ map (\<lambda>i. iteration_loss L d
       ((iteration_update L d ^^ i) (learner s))) [0..<nat n]"
  using love_fold [where k = "nat n" and L = L and d = d and n = n and s = s] by (simp_all add: love_train_def)

lemma dkl_train_eq:
  "learner (dkl_train L trl e s)
     = fold (iteration_update L) (batches trl) (likelihood_train L (model_train L (learner s)))"
  "stdout (dkl_train L trl e s) = stdout s @ map (\<lambda>i. DklLoss e (int i + 1) (int (length (batches trl)))
       (iteration_loss L (batches trl ! i)
          (fold (iteration_update L) (take i (batches trl))
             (likelihood_train L (model_train L (learner s))))))
       (filter (\<lambda>i. (int i + 1) mod 50 = 0) [0..<length (batches trl)])"
  "calls (dkl_train L trl e s)
     = calls s @ [ModelTrain, LikelihoodTrain]
         @ concat (replicate (length (batches trl)) iteration_calls)"
  "files (dkl_train L trl e s) = files s"
  "losses (dkl_train L trl e s) = losses s @ map (\<lambda>i. iteration_loss L (batches trl ! i)
       (fold (iteration_update L) (take i (batches trl))
          (likelihood_train L (model_train L (learner s))))) [0..<length (batches trl)]"
  using dkl_fold [where bs = "batches trl" and L = L and e = e
      and T = "int (length (batches trl))"
      and s = "s\<lparr> learner := likelihood_train L (model_train L (learner s)),
          calls := calls s @ [ModelTrain, LikelihoodTrain] \<rparr>"]
  by (simp_all add: dkl_train_def Let_def)

text \<open>
  C1. For an iteration count \<open>n\<close> the LOVE training loop runs exactly \<open>n\<close> iterations,
  and one pass of the DKL training function runs one iteration per batch of the loader.
  Each iteration clears the gradients, calls the model and the loss on the training data,
  back-propagates and takes one optimizer step, in this order and with nothing in between
  that could end the loop early: the log of calls grows by exactly \<open>n\<close> such blocks, the
  number of optimizer steps grows by exactly \<open>n\<close>, and the library state is the
  \<open>n\<close>-fold iterate of "clear, back-propagate, step". The loss is computed anew in
  every iteration: the values assigned to \<open>loss\<close> are, one per iteration and in order,
  \<open>-1 * mll(model(x), y)\<close> evaluated on the training data in the library state that
  iteration starts from, after its gradients are cleared.
\<close>

theorem train_runs_every_iteration:
  fixes L :: "('t, 'b, 'o, 'sd) lib" and s :: "('t, 'f) kernel"
  defines "step \<equiv> \<lambda>b t. optimizer_step L (backward L (zero_grad L t) b)"
    and "loss_at \<equiv> \<lambda>b t. - 1 * mll_call L (zero_grad L t) (model_call L (zero_grad L t) b) b"
  assumes "0 \<le> n"
  shows "calls (love_train L d n s)
           = calls s @ concat (replicate (nat n)
               [ZeroGrad, ModelCall, MllCall, Backward, OptimizerStep])
       \<and> int (count_list (calls (love_train L d n s)) OptimizerStep)
           = int (count_list (calls s) OptimizerStep) + n
       \<and> learner (love_train L d n s) = (step d ^^ nat n) (learner s)
       \<and> calls (dkl_train L trl e s)
           = calls s @ [ModelTrain, LikelihoodTrain]
               @ concat (replicate (length (batches trl))
                   [ZeroGrad, ModelCall, MllCall, Backward, OptimizerStep])
       \<and> count_list (calls (dkl_train L trl e s)) OptimizerStep
           = count_list (calls s) OptimizerStep + length (batches trl)
       \<and> learner (dkl_train L trl e s)
           = fold step (batches trl) (likelihood_train L (model_train L (learner s)))
       \<and> losses (love_train L d n s)
           = losses s @ map (\<lambda>i. loss_at d ((step d ^^ i) (learner s))) [0..<nat n]
       \<and> int (length (losses (love_train L d n s))) = int (length (losses s)) + n
       \<and> losses (dkl_train L trl e s)
           = losses s @ map (\<lambda>i. loss_at (batches trl ! i)
                 (fold step (take i (batches trl))
                    (likelihood_train L (model_train L (learner s)))))
               [0..<length (batches trl)]
       \<and> length (losses (dkl_train L trl e s)) = length (losses s) + length (batches trl)"
proof -
  have u: "iteration_update L = step"
    by (intro ext) (simp add: iteration_update_def step_def)
  have l: "iteration_loss L = loss_at"
    by (intro ext) (simp add: iteration_loss_def loss_at_def)
  have a: "calls (love_train L d n s)
           = calls s @ concat (replicate (nat n)
               [ZeroGrad, ModelCall, MllCall, Backward, OptimizerStep])"
    by (simp only: love_train_eq iteration_calls_def)
  have b: "int (count_list (calls (love_train L d n s)) OptimizerStep)
           = int (count_list (calls s) OptimizerStep) + n"
    using assms(3) by (simp add: love_train_eq count_iteration_calls)
  have c: "learner (love_train L d n s) = (step d ^^ nat n) (learner s)"
    by (simp only: love_train_eq u)
  have d: "calls (dkl_train L trl e s)
           = calls s @ [ModelTrain, LikelihoodTrain]
               @ concat (replicate (length (batches trl))
                   [ZeroGrad, ModelCall, MllCall, Backward, OptimizerStep])"
    by (simp only: dkl_train_eq iteration_calls_def)
  have e: "count_list (calls (dkl_train L trl e s)) OptimizerStep
           = count_list (calls s) OptimizerStep + length (batches trl)"
    by (simp add: dkl_train_eq count_iteration_calls)
  have f: "learner (dkl_train L trl e s)
           = fold step (batches trl) (likelihood_train L (model_train L (learner s)))"
    by (simp only: dkl_train_eq u)
  have g: "losses (love_train L d n s)
           = losses s @ map (\<lambda>i. loss_at d ((step d ^^ i) (learner s))) [0..<nat n]"
    by (simp only: love_train_eq u l)
  have h: "int (length (losses (love_train L d n s))) = int (length (losses s)) + n"
    using assms(3) by (simp add: g)
  have i: "losses (dkl_train L trl e s)
           = losses s @ map (\<lambda>i. loss_at (batches trl ! i)
                 (fold step (take i (batches trl))
                    (likelihood_train L (model_train L (learner s)))))
               [0..<length (batches trl)]"
    by (simp only: dkl_train_eq u l)
  have j: "length (losses (dkl_train L trl e s))
           = length (losses s) + length (batches trl)"
    by (simp add: i)
  from a b c d e f g h i j show ?thesis by (intro conjI)
qed

theorem train_runs_every_iteration_witness:
  "int (count_list (calls (love_train stub 5 3 fresh)) OptimizerStep) = 3
 \<and> learner (love_train stub 5 3 fresh) = 3
 \<and> count_list (calls (dkl_train stub \<lparr> batches = [1, 2], dataset_size = 2 \<rparr> 1 fresh))
       OptimizerStep = 2
 \<and> losses (love_train stub 5 3 fresh) = [5, 5, 5]
 \<and> losses (dkl_train stub \<lparr> batches = [1, 2], dataset_size = 2 \<rparr> 1 fresh) = [1, 2]"
proof -
  have h: "(0::int) \<le> 3" by simp
  have c: "count_list (calls fresh) OptimizerStep = 0" "learner fresh = 0" "losses fresh = []"
    by (simp_all add: fresh_def)
  have o: "optimizer_step stub = Suc" "backward stub = (\<lambda>t b. t)" "zero_grad stub = (\<lambda>t. t)"
    "model_call stub = (\<lambda>t b. b)" "mll_call stub = (\<lambda>t out b. - out)"
    by (simp_all add: stub_def)
  have u: "[0..<3] = [0, 1, 2]" "[0..<2] = [0, Suc 0]"
    by code_simp+
  note p = train_runs_every_iteration [OF h, of stub 5 fresh
      "\<lparr> batches = [1, 2], dataset_size = 2 \<rparr>" 1]
  have "int (count_list (calls (love_train stub 5 3 fresh)) OptimizerStep) = 3"
    using p [THEN conjunct2, THEN conjunct1] by (simp add: c)
  moreover have "learner (love_train stub 5 3 fresh) = 3"
    using p [THEN conjunct2, THEN conjunct2, THEN conjunct1]
    by (simp add: c o numeral_3_eq_3)
  moreover have "count_list (calls (dkl_train stub
      \<lparr> batches = [1, 2], dataset_size = 2 \<rparr> 1 fresh)) OptimizerStep = 2"
    using p [THEN conjunct2, THEN conjunct2, THEN conjunct2, THEN conjunct2, THEN conjunct1]
    by (simp add: c)
  moreover have "losses (love_train stub 5 3 fresh) = [5, 5, 5]"
    using p [THEN conjunct2, THEN conjunct2, THEN conjunct2, THEN conjunct2, THEN conjunct2,
        THEN conjunct2, THEN conjunct1]
    by (simp add: c o u)
  moreover have "losses (dkl_train stub
      \<lparr> batches = [1, 2], dataset_size = 2 \<rparr> 1 fresh) = [1, 2]"
    using p [THEN conjunct2, THEN conjunct2, THEN conjunct2, THEN conjunct2, THEN conjunct2,
        THEN conjunct2, THEN conjunct2, THEN conjunct2, THEN conjunct1]
    by (simp add: c o u)
  ultimately show ?thesis by (intro conjI)
qed

text \<open>
  C8, as amended. The LOVE training loop prints one line in every iteration, holding the
  iteration index \<open>i + 1\<close>, the iteration count \<open>n\<close> and the loss computed in that
  iteration. The DKL training function prints a line (epoch, batch index, number of
  batches, loss of that batch) only in the iterations whose batch index \<open>batch_idx + 1\<close>
  is a multiple of 50: \<open>len(train_loader) div 50\<close> lines per pass.
\<close>

theorem progress_lines:
  "stdout (love_train L d n s)
     = stdout s @ map (\<lambda>i. LoveLoss (int i + 1) n
         (iteration_loss L d ((iteration_update L d ^^ i) (learner s)))) [0..<nat n]
 \<and> length (stdout (love_train L d n s)) = length (stdout s) + nat n
 \<and> stdout (dkl_train L trl e s)
     = stdout s @ map (\<lambda>i. DklLoss e (int i + 1) (int (length (batches trl)))
         (iteration_loss L (batches trl ! i)
            (fold (iteration_update L) (take i (batches trl))
               (likelihood_train L (model_train L (learner s))))))
         (filter (\<lambda>i. (int i + 1) mod 50 = 0) [0..<length (batches trl)])
 \<and> length (stdout (dkl_train L trl e s)) = length (stdout s) + length (batches trl) div 50"
proof (intro conjI)
  show "stdout (love_train L d n s)
     = stdout s @ map (\<lambda>i. LoveLoss (int i + 1) n
         (iteration_loss L d ((iteration_update L d ^^ i) (learner s)))) [0..<nat n]"
    by (rule love_train_eq)
  then show "length (stdout (love_train L d n s)) = length (stdout s) + nat n"
    by simp
  show "stdout (dkl_train L trl e s)
     = stdout s @ map (\<lambda>i. DklLoss e (int i + 1) (int (length (batches trl)))
         (iteration_loss L (batches trl ! i)
            (fold (iteration_update L) (take i (batches trl))
               (likelihood_train L (model_train L (learner s))))))
         (filter (\<lambda>i. (int i + 1) mod 50 = 0) [0..<length (batches trl)])"
    by (rule dkl_train_eq)
  then show "length (stdout (dkl_train L trl e s))
             = length (stdout s) + length (batches trl) div 50"
    by (simp add: count_every_50)
qed

theorem progress_lines_witness:
  "stdout (love_train stub 5 2 fresh) = [LoveLoss 1 2 5, LoveLoss 2 2 5]
 \<and> length (stdout (dkl_train stub \<lparr> batches = replicate 50 1, dataset_size = 50 \<rparr> 1 fresh)) = 1"
proof -
  have c: "stdout fresh = []" "learner fresh = 0"
    by (simp_all add: fresh_def)
  have l: "iteration_loss stub 5 t = 5" for t
    by (simp add: iteration_loss_def stub_def)
  note p = progress_lines [of stub 5 2 fresh "\<lparr> batches = replicate 50 1, dataset_size = 50 \<rparr>" 1]
  have "stdout (love_train stub 5 2 fresh) = [LoveLoss 1 2 5, LoveLoss 2 2 5]"
    using p [THEN conjunct1] by (simp add: c l numeral_2_eq_2)
  moreover have "length (stdout (dkl_train stub
      \<lparr> batches = replicate 50 1, dataset_size = 50 \<rparr> 1 fresh)) = 1"
    using p [THEN conjunct2, THEN conjunct2, THEN conjunct2] by (simp add: c)
  ultimately show ?thesis by (intro conjI)
qed

text \<open>
  C8 as stated fails on the DKL training function: a pass over three batches runs three
  iterations and prints nothing.
\<close>

theorem progress_lines_counterexample:
  "stdout (dkl_train stub \<lparr> batches = [1, 2, 3], dataset_size = 3 \<rparr> 1 fresh) = []
 \<and> calls (dkl_train stub \<lparr> batches = [1, 2, 3], dataset_size = 3 \<rparr> 1 fresh)
     = [ModelTrain, LikelihoodTrain,
        ZeroGrad, ModelCall, MllCall, Backward, OptimizerStep,
        ZeroGrad, ModelCall, MllCall, Backward, OptimizerStep,
        ZeroGrad, ModelCall, MllCall, Backward, OptimizerStep]"
  by (simp add: dkl_train_def dkl_iteration_def stub_def fresh_def Let_def)

section \<open>Properties of testing and of the epoch loop\<close>

lemma test_batch_pair:
  "test_batch L b (s, frame) =
     (s\<lparr> calls := calls s @ [ModelCall, LikelihoodCall] \<rparr>,
      frame\<lparr> correct := correct frame + hits L (learner s) b \<rparr>)"
  by (simp add: test_batch_def Let_def)

text \<open>The loop over the test batches leaves \<open>test_loss\<close> as it is.\<close>

lemma fold_test_batch:
  "fold (test_batch L) bs (s, frame) =
     (s\<lparr> calls := calls s @ concat (map (\<lambda>b. [ModelCall, LikelihoodCall]) bs) \<rparr>,
      frame\<lparr> correct := correct frame + sum_list (map (hits L (learner s)) bs) \<rparr>)"
proof (induction bs arbitrary: s frame)
  case Nil
  show ?case by simp
next
  case (Cons b bs)
  show ?case
    by (simp add: test_batch_pair Cons.IH add.assoc)
qed

text \<open>
  C10. In \<open>test\<close> the local \<open>test_loss\<close> starts at \<open>0\<close> and no batch changes it, so
  the average loss the function computes is exactly \<open>0\<close> whatever the model, the
  likelihood and the test data are. (For a non-empty dataset the division is carried out
  and the function then stops at the unbound name in its \<open>print\<close>; for an empty one the
  division itself raises.)
\<close>

theorem test_average_loss_zero:
  "test_loss (fst (snd (dkl_test L tel s))) = 0
 \<and> (0 < dataset_size tel \<longrightarrow> snd (snd (dkl_test L tel s)) = Some (NameError ''tes_loader''))
 \<and> (dataset_size tel = 0 \<longrightarrow> snd (snd (dkl_test L tel s)) = Some ZeroDivisionError)"
  by (simp add: dkl_test_def fold_test_batch Let_def)

theorem test_average_loss_zero_witness:
  "test_loss (fst (snd (dkl_test stub \<lparr> batches = [1, 2], dataset_size = 2 \<rparr> fresh))) = 0
 \<and> snd (snd (dkl_test stub \<lparr> batches = [1, 2], dataset_size = 2 \<rparr> fresh))
     = Some (NameError ''tes_loader'')"
  using test_average_loss_zero [of stub "\<lparr> batches = [1, 2], dataset_size = 2 \<rparr>" fresh]
  by simp

lemma dkl_test_eq:
  "dkl_test L tel s =
     (s\<lparr> learner := likelihood_eval L (model_eval L (learner s)),
         calls := calls s @ [ModelEval, LikelihoodEval]
                    @ concat (map (\<lambda>b. [ModelCall, LikelihoodCall]) (batches tel)) \<rparr>,
      \<lparr> test_loss = 0,
        correct = sum_list (map (hits L (likelihood_eval L (model_eval L (learner s))))
                      (batches tel)) \<rparr>,
      Some (if dataset_size tel = 0 then ZeroDivisionError else NameError ''tes_loader''))"
  by (simp add: dkl_test_def fold_test_batch Let_def)

lemma epoch_body_raises:
  "snd (epoch_body L trl tel epoch s)
     = Some (if dataset_size tel = 0 then ZeroDivisionError else NameError ''tes_loader'')"
  "files (fst (epoch_body L trl tel epoch s)) = files s"
  by (simp_all add: epoch_body_def dkl_test_eq dkl_train_eq Let_def)

lemma epoch_body_no_save:
  "TorchSave \<in> set (calls (fst (epoch_body L trl tel epoch s))) \<longleftrightarrow> TorchSave \<in> set (calls s)"
  by (simp add: epoch_body_def dkl_test_eq dkl_train_eq iteration_calls_def Let_def)

lemma epoch_loop_no_save:
  "TorchSave \<in> set (calls (fst (epoch_loop L trl tel es s))) \<longleftrightarrow> TorchSave \<in> set (calls s)"
proof (cases es)
  case Nil
  then show ?thesis by simp
next
  case (Cons e rest)
  obtain s' r where b: "epoch_body L trl tel e s = (s', r)"
    by (cases "epoch_body L trl tel e s")
  with epoch_body_raises(1) [of L trl tel e s] epoch_body_no_save [of L trl tel e s]
  show ?thesis
    by (auto simp: Cons)
qed

lemma epoch_loop_files: "files (fst (epoch_loop L trl tel es s)) = files s"
proof (cases es)
  case Nil
  then show ?thesis by simp
next
  case (Cons e rest)
  obtain s' r where b: "epoch_body L trl tel e s = (s', r)"
    by (cases "epoch_body L trl tel e s")
  with epoch_body_raises [of L trl tel e s] show ?thesis
    by (auto simp: Cons)
qed

lemma epoch_loop_Cons: "epoch_loop L trl tel (e # rest) s = epoch_body L trl tel e s"
proof -
  obtain s' r where b: "epoch_body L trl tel e s = (s', r)"
    by (cases "epoch_body L trl tel e s")
  with epoch_body_raises(1) [of L trl tel e s] show ?thesis
    by auto
qed

text \<open>
  C4 does not hold of the code. The epoch loop never writes a checkpoint: the files are
  the same after the loop as before it and no call of \<open>torch.save\<close> is added to the
  log, for every number of epochs. With at least one
  epoch configured the loop is left during the first epoch by the exception \<open>test\<close>
  ends in, before the checkpoint statements are reached; and those statements, run on
  their own, raise \<open>NameError\<close> for \<open>state_dict\<close> before \<open>torch.save\<close> is called.
\<close>

theorem epoch_loop_never_saves:
  "files (fst (run_epochs L trl tel n_epochs s)) = files s
 \<and> (TorchSave \<in> set (calls (fst (run_epochs L trl tel n_epochs s)))
      \<longleftrightarrow> TorchSave \<in> set (calls s))
 \<and> (1 \<le> n_epochs \<longrightarrow>
       run_epochs L trl tel n_epochs s = epoch_body L trl tel 1 s
     \<and> snd (run_epochs L trl tel n_epochs s)
         = Some (if dataset_size tel = 0 then ZeroDivisionError else NameError ''tes_loader''))
 \<and> checkpoint L s
     = (s\<lparr> calls := calls s @ [StateDict, StateDict] \<rparr>, Some (NameError ''state_dict''))"
proof (intro conjI impI)
  show "files (fst (run_epochs L trl tel n_epochs s)) = files s"
    by (simp add: run_epochs_def epoch_loop_files)
  show "TorchSave \<in> set (calls (fst (run_epochs L trl tel n_epochs s)))
      \<longleftrightarrow> TorchSave \<in> set (calls s)"
    by (simp only: run_epochs_def epoch_loop_no_save)
  show "checkpoint L s
     = (s\<lparr> calls := calls s @ [StateDict, StateDict] \<rparr>, Some (NameError ''state_dict''))"
    by (simp add: checkpoint_def)
next
  assume n: "1 \<le> n_epochs"
  then have "[1..<nat (n_epochs + 1)] = 1 # [2..<nat (n_epochs + 1)]"
    by (simp add: upt_conv_Cons Suc_1 [symmetric] del: Suc_1)
  then show r: "run_epochs L trl tel n_epochs s = epoch_body L trl tel 1 s"
    by (simp add: run_epochs_def epoch_loop_Cons del: epoch_loop.simps)
  show "snd (run_epochs L trl tel n_epochs s)
         = Some (if dataset_size tel = 0 then ZeroDivisionError else NameError ''tes_loader'')"
    unfolding r by (rule epoch_body_raises)
qed

theorem epoch_loop_never_saves_witness:
  "snd (run_epochs stub \<lparr> batches = [1, 2], dataset_size = 2 \<rparr>
          \<lparr> batches = [3], dataset_size = 1 \<rparr> 100 fresh) = Some (NameError ''tes_loader'')
 \<and> files (fst (run_epochs stub \<lparr> batches = [1, 2], dataset_size = 2 \<rparr>
          \<lparr> batches = [3], dataset_size = 1 \<rparr> 100 fresh)) ''dkl_cifar_checkpoint.dat'' = None"
proof -
  have h: "(1::int) \<le> 100" by simp
  have f: "files fresh = Map.empty" by (simp add: fresh_def)
  note p = epoch_loop_never_saves [of stub "\<lparr> batches = [1, 2], dataset_size = 2 \<rparr>"
      "\<lparr> batches = [3], dataset_size = 1 \<rparr>" 100 fresh]
  have "snd (run_epochs stub \<lparr> batches = [1, 2], dataset_size = 2 \<rparr>
          \<lparr> batches = [3], dataset_size = 1 \<rparr> 100 fresh) = Some (NameError ''tes_loader'')"
    using p [THEN conjunct2, THEN conjunct2, THEN conjunct1, rule_format, OF h, THEN conjunct2]
    by simp
  moreover have "files (fst (run_epochs stub \<lparr> batches = [1, 2], dataset_size = 2 \<rparr>
          \<lparr> batches = [3], dataset_size = 1 \<rparr> 100 fresh)) ''dkl_cifar_checkpoint.dat'' = None"
    using p [THEN conjunct1] by (simp add: f)
  ultimately show ?thesis by (intro conjI)
qed

end
